theory Spec2Isabelle
  imports Main
begin

section \<open>Exceptions\<close>

text \<open>
  Every exception that the modelled code of \<^verbatim>\<open>x_month_export.py\<close> can raise is a value
  of this type; a function that can raise returns \<open>error + 'a\<close>, with \<open>Inl\<close> the exception.
\<close>

datatype error =
    ValueError
  | TypeError
  | OverflowError
  | IllegalMonthError
  | JSONDecodeError
  | RequestException
  | OSError

section \<open>The month window: \<^verbatim>\<open>iso_month_bounds\<close>\<close>

text \<open>
  A \<^verbatim>\<open>datetime\<close> in UTC, by its calendar fields. The constructor of the library validates
  its arguments: the year lies in \<open>1..9999\<close> (\<^verbatim>\<open>MINYEAR\<close>, \<^verbatim>\<open>MAXYEAR\<close>), the month in
  \<open>1..12\<close>, the day in the month, the time of day in its ranges; otherwise it raises
  \<^verbatim>\<open>ValueError\<close>.
\<close>

record datetime =
  year :: int
  month :: int
  day :: int
  hour :: int
  minute :: int
  second :: int

definition isleap :: "int \<Rightarrow> bool" where
  "isleap y = (y mod 4 = 0 \<and> (y mod 100 \<noteq> 0 \<or> y mod 400 = 0))"

definition mdays :: "int list" where
  "mdays = [0, 31, 28, 31, 30, 31, 30, 31, 31, 30, 31, 30, 31]"

definition days_in_month :: "int \<Rightarrow> int \<Rightarrow> int" where
  "days_in_month y m = mdays ! nat m + (if m = 2 \<and> isleap y then 1 else 0)"

definition mk_datetime :: "int \<Rightarrow> int \<Rightarrow> int \<Rightarrow> int \<Rightarrow> int \<Rightarrow> int \<Rightarrow> error + datetime" where
  "mk_datetime y m d hh mm ss =
     (if \<not> (1 \<le> y \<and> y \<le> 9999) then Inl ValueError
      else if \<not> (1 \<le> m \<and> m \<le> 12) then Inl ValueError
      else if \<not> (1 \<le> d \<and> d \<le> days_in_month y m) then Inl ValueError
      else if \<not> (0 \<le> hh \<and> hh \<le> 23) then Inl ValueError
      else if \<not> (0 \<le> mm \<and> mm \<le> 59) then Inl ValueError
      else if \<not> (0 \<le> ss \<and> ss \<le> 59) then Inl ValueError
      else Inr \<lparr>year = y, month = m, day = d, hour = hh, minute = mm, second = ss\<rparr>)"

text \<open>
  \<^verbatim>\<open>calendar.monthrange(year, month)[1]\<close>: the number of days of the month, after the
  library's check of the month.
\<close>

definition monthrange_ndays :: "int \<Rightarrow> int \<Rightarrow> error + int" where
  "monthrange_ndays y m =
     (if \<not> (1 \<le> m \<and> m \<le> 12) then Inl IllegalMonthError
      else Inr (days_in_month y m))"

text \<open>
  \<^verbatim>\<open>d + timedelta(seconds=1)\<close>: the next second of the calendar, carried through the
  fields; a result after 9999-12-31T23:59:59 is out of the range of \<^verbatim>\<open>datetime\<close> and
  raises \<^verbatim>\<open>OverflowError\<close>.
\<close>

definition plus_one_second :: "datetime \<Rightarrow> error + datetime" where
  "plus_one_second d =
     (if second d < 59 then Inr (d\<lparr>second := second d + 1\<rparr>)
      else if minute d < 59 then Inr (d\<lparr>minute := minute d + 1, second := 0\<rparr>)
      else if hour d < 23 then Inr (d\<lparr>hour := hour d + 1, minute := 0, second := 0\<rparr>)
      else if day d < days_in_month (year d) (month d)
        then Inr (d\<lparr>day := day d + 1, hour := 0, minute := 0, second := 0\<rparr>)
      else if month d < 12
        then Inr (d\<lparr>month := month d + 1, day := 1, hour := 0, minute := 0, second := 0\<rparr>)
      else if year d < 9999
        then Inr \<lparr>year = year d + 1, month = 1, day = 1, hour = 0, minute = 0, second = 0\<rparr>
      else Inl OverflowError)"

text \<open>Decimal digits, and the zero padding of \<^verbatim>\<open>%04d\<close> and \<^verbatim>\<open>%02d\<close>.\<close>

fun decimal :: "nat \<Rightarrow> string" where
  "decimal n =
     (if n < 10 then [''0123456789'' ! n]
      else decimal (n div 10) @ [''0123456789'' ! (n mod 10)])"

declare decimal.simps [simp del]

definition zero_pad :: "nat \<Rightarrow> nat \<Rightarrow> string" where
  "zero_pad w n = replicate (w - length (decimal n)) CHR ''0'' @ decimal n"

text \<open>
  \<^verbatim>\<open>isoformat()\<close> of a UTC datetime without microseconds, and
  \<^verbatim>\<open>.replace("+00:00", "Z")\<close>.
\<close>

definition isoformat :: "datetime \<Rightarrow> string" where
  "isoformat d =
     zero_pad 4 (nat (year d)) @ ''-'' @ zero_pad 2 (nat (month d)) @ ''-'' @
     zero_pad 2 (nat (day d)) @ ''T'' @ zero_pad 2 (nat (hour d)) @ '':'' @
     zero_pad 2 (nat (minute d)) @ '':'' @ zero_pad 2 (nat (second d)) @ ''+00:00''"

fun replace_utc_offset :: "string \<Rightarrow> string" where
  "replace_utc_offset [] = []"
| "replace_utc_offset (c # cs) =
     (if take 6 (c # cs) = ''+00:00'' then ''Z'' @ replace_utc_offset (drop 6 (c # cs))
      else c # replace_utc_offset cs)"

definition month_bounds :: "int \<Rightarrow> int \<Rightarrow> error + (datetime \<times> datetime)" where
  "month_bounds y m =
     (case mk_datetime y m 1 0 0 0 of
        Inl e \<Rightarrow> Inl e
      | Inr start \<Rightarrow>
          (case monthrange_ndays y m of
             Inl e \<Rightarrow> Inl e
           | Inr last_day \<Rightarrow>
               (case mk_datetime y m last_day 23 59 59 of
                  Inl e \<Rightarrow> Inl e
                | Inr d \<Rightarrow>
                    (case plus_one_second d of
                       Inl e \<Rightarrow> Inl e
                     | Inr end_dt \<Rightarrow> Inr (start, end_dt)))))"

definition iso_month_bounds :: "int \<Rightarrow> int \<Rightarrow> error + (string \<times> string)" where
  "iso_month_bounds y m =
     (case month_bounds y m of
        Inl e \<Rightarrow> Inl e
      | Inr (start, end_dt) \<Rightarrow>
          Inr (replace_utc_offset (isoformat start), replace_utc_offset (isoformat end_dt)))"

text \<open>
  The words of the specification: the first instant of day 1 of a month, the month that
  follows a month, and the order of instants.
\<close>

definition first_instant :: "int \<Rightarrow> int \<Rightarrow> datetime" where
  "first_instant y m = \<lparr>year = y, month = m, day = 1, hour = 0, minute = 0, second = 0\<rparr>"

definition following_month :: "int \<Rightarrow> int \<Rightarrow> int \<times> int" where
  "following_month y m = (if m = 12 then (y + 1, 1) else (y, m + 1))"

definition dt_key :: "datetime \<Rightarrow> int list" where
  "dt_key d = [year d, month d, day d, hour d, minute d, second d]"

fun lex_less :: "int list \<Rightarrow> int list \<Rightarrow> bool" where
  "lex_less (a # as) (b # bs) = (a < b \<or> (a = b \<and> lex_less as bs))"
| "lex_less [] (b # bs) = True"
| "lex_less as [] = False"

definition earlier :: "datetime \<Rightarrow> datetime \<Rightarrow> bool" where
  "earlier a b = lex_less (dt_key a) (dt_key b)"

section \<open>Backoff: \<^verbatim>\<open>backoff_sleep\<close>\<close>

text \<open>
  The built-in \<^verbatim>\<open>int(s)\<close> on a string, as CPython 3.11 has it: surrounding whitespace
  is stripped (the characters 9 to 13, 32, 133 and 160 of Latin-1), one sign is allowed,
  and the rest is a non-empty run of decimal digits in which single underscores may
  separate digits; a string with more than 4300 digits is refused. \<open>None\<close> is the
  \<^verbatim>\<open>ValueError\<close> of the built-in. A header value is text in Latin-1, one \<open>char\<close> per
  code point.
\<close>

definition py_isspace :: "char \<Rightarrow> bool" where
  "py_isspace c =
     (let n = (of_char c :: nat)
      in (9 \<le> n \<and> n \<le> 13) \<or> n = 32 \<or> n = 133 \<or> n = 160)"

definition is_digit :: "char \<Rightarrow> bool" where
  "is_digit c = (let n = (of_char c :: nat) in 48 \<le> n \<and> n \<le> 57)"

definition digit_val :: "char \<Rightarrow> int" where
  "digit_val c = int (of_char c) - 48"

fun digits_acc :: "string \<Rightarrow> int \<Rightarrow> int option" where
  "digits_acc [] acc = Some acc"
| "digits_acc (c # cs) acc =
     (if is_digit c then digits_acc cs (10 * acc + digit_val c)
      else if c = CHR ''_'' then
        (case cs of
           [] \<Rightarrow> None
         | d # ds \<Rightarrow> if is_digit d then digits_acc cs acc else None)
      else None)"

definition int_digits :: "string \<Rightarrow> int option" where
  "int_digits s =
     (if 4300 < length (filter is_digit s) then None
      else
        (case s of
           [] \<Rightarrow> None
         | c # cs \<Rightarrow> if is_digit c then digits_acc s 0 else None))"

definition py_int :: "string \<Rightarrow> int option" where
  "py_int s =
     (case rev (dropWhile py_isspace (rev (dropWhile py_isspace s))) of
        [] \<Rightarrow> None
      | c # cs \<Rightarrow>
          if c = CHR ''-'' then map_option uminus (int_digits cs)
          else if c = CHR ''+'' then int_digits cs
          else int_digits (c # cs))"

text \<open>
  \<^verbatim>\<open>time.sleep(secs)\<close> with an integer argument, as CPython 3.11 has it. The argument
  is first converted to the 64-bit count of nanoseconds of the interpreter's clock: beyond
  9223372036 seconds in either direction the conversion raises \<^verbatim>\<open>OverflowError\<close>. A
  negative argument then raises \<^verbatim>\<open>ValueError\<close>. The system call refuses a deadline that
  its clock cannot hold, with \<^verbatim>\<open>OSError\<close>: what it accepts depends on the platform and
  on its clock, and the largest number of seconds that it accepts is a parameter of the
  model, \<open>sleep_max\<close>. Any other argument suspends the caller for that many seconds;
  the seconds slept are appended to the list of suspensions of the run.
\<close>

definition pytime_max_secs :: int where
  "pytime_max_secs = 9223372036"

definition time_sleep :: "int \<Rightarrow> int \<Rightarrow> int list \<Rightarrow> error + int list" where
  "time_sleep sleep_max secs slept =
     (if pytime_max_secs < secs \<or> secs < - pytime_max_secs then Inl OverflowError
      else if secs < 0 then Inl ValueError
      else if sleep_max < secs then Inl OSError
      else Inr (slept @ [secs]))"

section \<open>HTTP exchanges\<close>

text \<open>
  A post is an opaque record of which only \<^verbatim>\<open>created_at\<close> is read; \<open>None\<close> is a missing
  key or a JSON \<^verbatim>\<open>null\<close>.
\<close>

record post =
  post_id :: string
  created_at :: "string option"
  post_text :: string

record meta =
  meta_result_count :: "int option"
  meta_next_token :: "string option"

record payload =
  payload_data :: "post list option"
  payload_meta :: "meta option"

text \<open>
  A response: its status, the value of its \<^verbatim>\<open>retry-after\<close> header if it has one, and
  the value of \<^verbatim>\<open>r.json()\<close>, \<open>None\<close> when the body does not decode.
\<close>

record response =
  status_code :: int
  retry_after :: "string option"
  json :: "payload option"

text \<open>
  The parameters of a timeline request that vary between calls or between pages. The
  field selectors, the URL and the authorization header are constants of the call.
\<close>

record request =
  pagination_token :: "string option"
  max_results :: int
  start_time :: string
  end_time :: string
  exclude :: "string option"

text \<open>
  The server answers the \<open>n\<close>-th request of a fetch, \<open>Inl\<close> when \<^verbatim>\<open>requests.get\<close>
  raises instead of returning a response.
\<close>

type_synonym server = "nat \<Rightarrow> request \<Rightarrow> error + response"

definition backoff_sleep :: "int \<Rightarrow> response \<Rightarrow> int \<Rightarrow> int list \<Rightarrow> error + int list" where
  "backoff_sleep sleep_max resp default_sec slept =
     (case retry_after resp of
        None \<Rightarrow> time_sleep sleep_max default_sec slept
      | Some h \<Rightarrow>
          if h \<noteq> [] then
            (case py_int h of
               None \<Rightarrow> time_sleep sleep_max default_sec slept
             | Some n \<Rightarrow>
                 (case time_sleep sleep_max n slept of
                    Inr slept' \<Rightarrow> Inr slept'
                  | Inl e \<Rightarrow>
                      if e = ValueError then time_sleep sleep_max default_sec slept
                      else Inl e))
          else time_sleep sleep_max default_sec slept)"

section \<open>Timestamps of posts\<close>

text \<open>
  \<^verbatim>\<open>datetime.fromisoformat\<close> is the library's parser, and what it accepts depends on
  the version of the library: it is a parameter of the model. It returns \<open>None\<close> where the
  library raises \<^verbatim>\<open>ValueError\<close>, and otherwise an instant that is aware of its offset
  (given as seconds of UTC) or naive. Comparing an aware with a naive datetime raises
  \<^verbatim>\<open>TypeError\<close>.
\<close>

datatype dtval = Naive int | Aware int

type_synonym fromisoformat = "string \<Rightarrow> dtval option"

fun dt_lt :: "dtval \<Rightarrow> dtval \<Rightarrow> error + bool" where
  "dt_lt (Aware a) (Aware b) = Inr (a < b)"
| "dt_lt (Naive a) (Naive b) = Inr (a < b)"
| "dt_lt (Aware a) (Naive b) = Inl TypeError"
| "dt_lt (Naive a) (Aware b) = Inl TypeError"

fun dt_le :: "dtval \<Rightarrow> dtval \<Rightarrow> error + bool" where
  "dt_le (Aware a) (Aware b) = Inr (a \<le> b)"
| "dt_le (Naive a) (Naive b) = Inr (a \<le> b)"
| "dt_le (Aware a) (Naive b) = Inl TypeError"
| "dt_le (Naive a) (Aware b) = Inl TypeError"

text \<open>\<^verbatim>\<open>s.replace("Z", "+00:00")\<close>\<close>

definition replace_Z :: "string \<Rightarrow> string" where
  "replace_Z s = concat (map (\<lambda>c. if c = CHR ''Z'' then ''+00:00'' else [c]) s)"

text \<open>
  \<^verbatim>\<open>min((fromisoformat(...) for p in posts if p.get("created_at")), default=None)\<close>: the
  generator skips the posts whose \<^verbatim>\<open>created_at\<close> is missing or empty and parses the
  others one by one; \<^verbatim>\<open>min\<close> keeps the smallest value so far, replacing it when the next
  one is smaller. The first exception ends the evaluation.
\<close>

fun min_created :: "fromisoformat \<Rightarrow> post list \<Rightarrow> dtval option \<Rightarrow> error + dtval option" where
  "min_created parse [] cur = Inr cur"
| "min_created parse (p # ps) cur =
     (case created_at p of
        None \<Rightarrow> min_created parse ps cur
      | Some ts \<Rightarrow>
          if ts = [] then min_created parse ps cur
          else
            (case parse (replace_Z ts) of
               None \<Rightarrow> Inl ValueError
             | Some d \<Rightarrow>
                 (case cur of
                    None \<Rightarrow> min_created parse ps (Some d)
                  | Some c \<Rightarrow>
                      (case dt_lt d c of
                         Inl e \<Rightarrow> Inl e
                       | Inr b \<Rightarrow> min_created parse ps (Some (if b then d else c))))))"

text \<open>
  Stopping condition 3, with its \<^verbatim>\<open>try\<close>/\<^verbatim>\<open>except Exception\<close>: any exception of the
  computation leaves the condition false.
\<close>

definition oldest_before_start :: "fromisoformat \<Rightarrow> dtval \<Rightarrow> post list \<Rightarrow> bool" where
  "oldest_before_start parse window_start_dt posts =
     (case min_created parse posts None of
        Inl e \<Rightarrow> False
      | Inr None \<Rightarrow> False
      | Inr (Some oldest_dt) \<Rightarrow>
          (case dt_lt oldest_dt window_start_dt of
             Inl e \<Rightarrow> False
           | Inr b \<Rightarrow> b))"

section \<open>The pagination loop of \<^verbatim>\<open>fetch_user_posts_for_month\<close>\<close>

record fetch_args =
  start_time_iso :: string
  end_time_iso :: string
  include_replies :: bool
  include_retweets :: bool
  max_per_request :: int

text \<open>
  The variables of the loop, and what the run has done to the world: the exchanges with
  the server (each request with the response it received) and the suspensions. The
  incremental save writes a side file inside a \<^verbatim>\<open>try\<close> that swallows every exception
  and nothing reads the file back, and the console output is not read either: neither
  is part of the state.
\<close>

record fetch_state =
  all_posts :: "post list"
  next_token :: "string option"
  seen_tokens :: "string set"
  page_idx :: nat
  exchanges :: "(request \<times> response) list"
  slept :: "int list"

definition init_state :: fetch_state where
  "init_state =
     \<lparr>all_posts = [], next_token = None, seen_tokens = {}, page_idx = 0,
      exchanges = [], slept = []\<rparr>"

datatype ctl = Continue | Break

definition excludes :: "fetch_args \<Rightarrow> string list" where
  "excludes args =
     (if \<not> include_replies args then [''replies''] else []) @
     (if \<not> include_retweets args then [''retweets''] else [])"

fun join_comma :: "string list \<Rightarrow> string" where
  "join_comma [] = []"
| "join_comma [x] = x"
| "join_comma (x # y # ys) = x @ '','' @ join_comma (y # ys)"

text \<open>
  The parameters at the head of the loop: \<^verbatim>\<open>pagination_token\<close> is set when
  \<^verbatim>\<open>next_token\<close> is truthy (present and not empty), and removed otherwise.
\<close>

definition build_request :: "fetch_args \<Rightarrow> fetch_state \<Rightarrow> request" where
  "build_request args st =
     \<lparr>pagination_token =
        (case next_token st of
           None \<Rightarrow> None
         | Some t \<Rightarrow> if t \<noteq> [] then Some t else None),
      max_results = max_per_request args,
      start_time = start_time_iso args,
      end_time = end_time_iso args,
      exclude = (if excludes args \<noteq> [] then Some (join_comma (excludes args)) else None)\<rparr>"

definition page_posts :: "payload \<Rightarrow> post list" where
  "page_posts pl = (case payload_data pl of None \<Rightarrow> [] | Some ps \<Rightarrow> ps)"

definition page_meta :: "payload \<Rightarrow> meta" where
  "page_meta pl =
     (case payload_meta pl of
        None \<Rightarrow> \<lparr>meta_result_count = None, meta_next_token = None\<rparr>
      | Some m \<Rightarrow> m)"

definition page_result_count :: "payload \<Rightarrow> int" where
  "page_result_count pl =
     (case meta_result_count (page_meta pl) of None \<Rightarrow> 0 | Some c \<Rightarrow> c)"

text \<open>The branch of status 200, after \<^verbatim>\<open>r.json()\<close> has returned.\<close>

definition handle_page ::
  "fromisoformat \<Rightarrow> fetch_args \<Rightarrow> dtval \<Rightarrow> fetch_state \<Rightarrow> payload \<Rightarrow> fetch_state \<times> ctl" where
  "handle_page parse args window_start_dt st pl =
     (let posts = page_posts pl;
          result_count = page_result_count pl;
          got = int (length posts);
          st1 = st\<lparr>page_idx := page_idx st + 1, all_posts := all_posts st @ posts\<rparr>
      in if posts = [] \<or> result_count = 0 then (st1, Break)
         else if got < max_per_request args then (st1, Break)
         else if oldest_before_start parse window_start_dt posts then (st1, Break)
         else
           (case meta_next_token (page_meta pl) of
              None \<Rightarrow> (st1, Break)
            | Some new_token \<Rightarrow>
                if new_token \<in> seen_tokens st1 then (st1, Break)
                else
                  (st1\<lparr>seen_tokens := insert new_token (seen_tokens st1),
                       next_token := Some new_token\<rparr>, Continue)))"

text \<open>One iteration of \<^verbatim>\<open>while True\<close>, given the answer to its request.\<close>

definition loop_step ::
  "int \<Rightarrow> fromisoformat \<Rightarrow> fetch_args \<Rightarrow> dtval \<Rightarrow> fetch_state \<Rightarrow> request \<Rightarrow> error + response
     \<Rightarrow> error + (fetch_state \<times> ctl)" where
  "loop_step sleep_max parse args window_start_dt st rq answer =
     (case answer of
        Inl e \<Rightarrow> Inl e
      | Inr r \<Rightarrow>
          (let st0 = st\<lparr>exchanges := exchanges st @ [(rq, r)]\<rparr>
           in if status_code r = 200 then
                (case json r of
                   None \<Rightarrow> Inl JSONDecodeError
                 | Some pl \<Rightarrow> Inr (handle_page parse args window_start_dt st0 pl))
              else if status_code r = 429 \<or> status_code r = 503 then
                (case backoff_sleep sleep_max r 60 (slept st0) of
                   Inl e \<Rightarrow> Inl e
                 | Inr slept' \<Rightarrow> Inr (st0\<lparr>slept := slept'\<rparr>, Continue))
              else Inr (st0, Break)))"

text \<open>
  The loop. It has no bound on its iterations: a run that never leaves the loop has the
  value \<open>None\<close>.
\<close>

partial_function (option) fetch_loop ::
  "int \<Rightarrow> fromisoformat \<Rightarrow> server \<Rightarrow> fetch_args \<Rightarrow> dtval \<Rightarrow> nat \<Rightarrow> fetch_state
     \<Rightarrow> (error + fetch_state) option" where
  "fetch_loop sleep_max parse srv args window_start_dt n st =
     (case loop_step sleep_max parse args window_start_dt st (build_request args st)
             (srv n (build_request args st)) of
        Inl e \<Rightarrow> Some (Inl e)
      | Inr (st', Break) \<Rightarrow> Some (Inr st')
      | Inr (st', Continue) \<Rightarrow> fetch_loop sleep_max parse srv args window_start_dt (Suc n) st')"

section \<open>The window filter\<close>

definition in_window :: "fromisoformat \<Rightarrow> dtval \<Rightarrow> dtval \<Rightarrow> post \<Rightarrow> error + bool" where
  "in_window parse window_start_dt window_end_dt p =
     (case created_at p of
        None \<Rightarrow> Inr True
      | Some ts \<Rightarrow>
          if ts = [] then Inr True
          else
            (case parse (replace_Z ts) of
               None \<Rightarrow> Inl ValueError
             | Some dt \<Rightarrow>
                 (case dt_le window_start_dt dt of
                    Inl e \<Rightarrow> Inl e
                  | Inr b \<Rightarrow> if b then dt_lt dt window_end_dt else Inr False)))"

text \<open>\<^verbatim>\<open>[p for p in all_posts if in_window(p)]\<close>\<close>

fun filter_in_window ::
  "fromisoformat \<Rightarrow> dtval \<Rightarrow> dtval \<Rightarrow> post list \<Rightarrow> error + post list" where
  "filter_in_window parse ws we [] = Inr []"
| "filter_in_window parse ws we (p # ps) =
     (case in_window parse ws we p of
        Inl e \<Rightarrow> Inl e
      | Inr keep \<Rightarrow>
          (case filter_in_window parse ws we ps of
             Inl e \<Rightarrow> Inl e
           | Inr rest \<Rightarrow> Inr (if keep then p # rest else rest)))"

text \<open>What the function does with the outcome of the loop: the \<^verbatim>\<open>return\<close> statement.\<close>

definition return_filtered ::
  "fromisoformat \<Rightarrow> dtval \<Rightarrow> dtval \<Rightarrow> (error + fetch_state) option \<Rightarrow> (error + post list) option" where
  "return_filtered parse ws we outcome =
     (case outcome of
        None \<Rightarrow> None
      | Some (Inl e) \<Rightarrow> Some (Inl e)
      | Some (Inr st) \<Rightarrow> Some (filter_in_window parse ws we (all_posts st)))"

definition fetch_user_posts_for_month ::
  "int \<Rightarrow> fromisoformat \<Rightarrow> server \<Rightarrow> fetch_args \<Rightarrow> (error + post list) option" where
  "fetch_user_posts_for_month sleep_max parse srv args =
     (case parse (replace_Z (start_time_iso args)) of
        None \<Rightarrow> Some (Inl ValueError)
      | Some window_start_dt \<Rightarrow>
          (case parse (replace_Z (end_time_iso args)) of
             None \<Rightarrow> Some (Inl ValueError)
           | Some window_end_dt \<Rightarrow>
               return_filtered parse window_start_dt window_end_dt
                 (fetch_loop sleep_max parse srv args window_start_dt 0 init_state)))"

section \<open>The call in \<^verbatim>\<open>main\<close>\<close>

text \<open>\<^verbatim>\<open>max_per_request=min(max(args.per_page, 10), 100)\<close>\<close>

definition main_max_per_request :: "int \<Rightarrow> int" where
  "main_max_per_request per_page = min (max per_page 10) 100"

definition main_fetch_args :: "string \<Rightarrow> string \<Rightarrow> bool \<Rightarrow> bool \<Rightarrow> int \<Rightarrow> fetch_args" where
  "main_fetch_args start_iso end_iso replies retweets per_page =
     \<lparr>start_time_iso = start_iso, end_time_iso = end_iso,
      include_replies = replies, include_retweets = retweets,
      max_per_request = main_max_per_request per_page\<rparr>"

section \<open>Vocabulary of the properties\<close>

text \<open>
  The cursors of the requests that were answered with status 200, in the order of the
  requests. A request without \<^verbatim>\<open>pagination_token\<close> uses no cursor.
\<close>

definition successful_cursors :: "(request \<times> response) list \<Rightarrow> string list" where
  "successful_cursors xs =
     concat (map (\<lambda>(rq, r).
       if status_code r = 200
       then (case pagination_token rq of None \<Rightarrow> [] | Some t \<Rightarrow> [t])
       else []) xs)"

text \<open>The items of the pages that were received, in the order of the requests.\<close>

definition response_posts :: "response \<Rightarrow> post list" where
  "response_posts r =
     (if status_code r = 200
      then (case json r of None \<Rightarrow> [] | Some pl \<Rightarrow> page_posts pl)
      else [])"

definition received_posts :: "(request \<times> response) list \<Rightarrow> post list" where
  "received_posts xs = concat (map (\<lambda>(rq, r). response_posts r) xs)"

text \<open>A server that never throttles, and a server whose cursors all lie in a set.\<close>

definition no_throttling :: "server \<Rightarrow> bool" where
  "no_throttling srv =
     (\<forall>n rq r. srv n rq = Inr r \<longrightarrow> status_code r \<noteq> 429 \<and> status_code r \<noteq> 503)"

definition cursors_within :: "server \<Rightarrow> string set \<Rightarrow> bool" where
  "cursors_within srv C =
     (\<forall>n rq r pl t. srv n rq = Inr r \<longrightarrow> status_code r = 200 \<longrightarrow> json r = Some pl \<longrightarrow>
        meta_next_token (page_meta pl) = Some t \<longrightarrow> t \<in> C)"

text \<open>
  What holds of the cursors at the head of every iteration: the cursors used by the
  successful requests so far are distinct and recorded, and the current cursor is
  recorded and not used by a successful request yet.
\<close>

definition cursor_inv :: "fetch_state \<Rightarrow> bool" where
  "cursor_inv st =
     (distinct (successful_cursors (exchanges st))
      \<and> set (successful_cursors (exchanges st)) \<subseteq> seen_tokens st
      \<and> (\<forall>t. next_token st = Some t \<longrightarrow>
            t \<in> seen_tokens st \<and> t \<notin> set (successful_cursors (exchanges st))))"

text \<open>
  The timestamps of a page in the words of the specification: the instants of the items
  whose \<^verbatim>\<open>created_at\<close> parses, and the earliest of them.
\<close>

definition parsed_created :: "fromisoformat \<Rightarrow> post \<Rightarrow> dtval option" where
  "parsed_created parse p =
     (case created_at p of
        None \<Rightarrow> None
      | Some ts \<Rightarrow> if ts = [] then None else parse (replace_Z ts))"

definition parseable_instants :: "fromisoformat \<Rightarrow> post list \<Rightarrow> int list" where
  "parseable_instants parse posts =
     concat (map (\<lambda>p. case parsed_created parse p of Some (Aware t) \<Rightarrow> [t] | _ \<Rightarrow> []) posts)"

definition min_parseable :: "fromisoformat \<Rightarrow> post list \<Rightarrow> int option" where
  "min_parseable parse posts =
     (case parseable_instants parse posts of
        [] \<Rightarrow> None
      | t # ts \<Rightarrow> Some (fold min ts t))"

text \<open>
  An item whose timestamp is read: \<^verbatim>\<open>created_at\<close> is present and not empty. It fails to
  parse when the parser raises, and it is aware when the parser returns an instant with
  an offset.
\<close>

definition fails_to_parse :: "fromisoformat \<Rightarrow> post \<Rightarrow> bool" where
  "fails_to_parse parse p =
     (case created_at p of
        None \<Rightarrow> False
      | Some ts \<Rightarrow> ts \<noteq> [] \<and> parse (replace_Z ts) = None)"

definition aware_or_blank :: "fromisoformat \<Rightarrow> post \<Rightarrow> bool" where
  "aware_or_blank parse p =
     (case created_at p of
        None \<Rightarrow> True
      | Some ts \<Rightarrow>
          ts = [] \<or> (case parse (replace_Z ts) of Some (Aware t) \<Rightarrow> True | _ \<Rightarrow> False))"


text \<open>Clamping a value into a range.\<close>

definition clamp :: "int \<Rightarrow> int \<Rightarrow> int \<Rightarrow> int" where
  "clamp lo hi x = (if x < lo then lo else if hi < x then hi else x)"

text \<open>The decision of the loop by the conditions 1, 2 and 4 alone.\<close>

definition stops_without_oldest :: "fetch_args \<Rightarrow> fetch_state \<Rightarrow> payload \<Rightarrow> bool" where
  "stops_without_oldest args st pl =
     (page_posts pl = [] \<or> page_result_count pl = 0
      \<or> int (length (page_posts pl)) < max_per_request args
      \<or> (case meta_next_token (page_meta pl) of
            None \<Rightarrow> True
          | Some t \<Rightarrow> t \<in> seen_tokens st))"

text \<open>
  A page that the conditions 1 to 3 let pass: it has items, it declares a result count
  other than 0, it has no fewer items than \<^verbatim>\<open>max_results\<close>, and its oldest item is not
  found to be earlier than the start of the window. And the request that the loop builds
  when its current cursor is \<open>c\<close>.
\<close>

definition full_page :: "fromisoformat \<Rightarrow> fetch_args \<Rightarrow> dtval \<Rightarrow> payload \<Rightarrow> bool" where
  "full_page parse args ws pl =
     (page_posts pl \<noteq> [] \<and> page_result_count pl \<noteq> 0
      \<and> \<not> int (length (page_posts pl)) < max_per_request args
      \<and> \<not> oldest_before_start parse ws (page_posts pl))"

definition request_after :: "fetch_args \<Rightarrow> string \<Rightarrow> request" where
  "request_after args c = build_request args (init_state\<lparr>next_token := Some c\<rparr>)"


text \<open>Every request of a list of exchanges asks for pages of the same size.\<close>

definition requests_use :: "int \<Rightarrow> (request \<times> response) list \<Rightarrow> bool" where
  "requests_use m xs = list_all (\<lambda>x. max_results (fst x) = m) xs"

section \<open>Example runs\<close>

text \<open>
  A stand-in for the library's parser in the examples. It has the library's value on each
  string that the examples parse: the five strings of the table, which are timestamps
  after \<^verbatim>\<open>Z\<close> has been replaced and have the seconds since 1970 as their instants, and
  \<^verbatim>\<open>not-a-date\<close>, on which the library raises.
\<close>

definition iso_table :: fromisoformat where
  "iso_table = map_of
     [(''2024-02-01T00:00:00+00:00'', Aware 1706745600),
      (''2024-03-01T00:00:00+00:00'', Aware 1709251200),
      (''2024-02-10T12:00:00+00:00'', Aware 1707566400),
      (''2024-01-15T00:00:00+00:00'', Aware 1705276800),
      (''2024-03-05T00:00:00+00:00'', Aware 1709596800)]"

text \<open>
  The platform of the examples: its \<^verbatim>\<open>time.sleep\<close> accepts the 7 and the 60 seconds
  that the examples sleep, as every platform does.
\<close>

definition example_sleep_max :: int where
  "example_sleep_max = 9000000000"

text \<open>February 2024, as \<^verbatim>\<open>main\<close> calls the fetch with \<^verbatim>\<open>--per-page 10\<close>.\<close>

definition feb_args :: fetch_args where
  "feb_args =
     main_fetch_args ''2024-02-01T00:00:00Z'' ''2024-03-01T00:00:00Z'' True True 10"

definition feb_start :: dtval where
  "feb_start = Aware 1706745600"

definition feb_end :: dtval where
  "feb_end = Aware 1709251200"

text \<open>Posts with a given \<^verbatim>\<open>created_at\<close>, pages, responses and requests.\<close>

definition mk_post :: "string \<Rightarrow> string \<Rightarrow> post" where
  "mk_post ts i = \<lparr>post_id = i, created_at = Some ts, post_text = []\<rparr>"

definition posts_at :: "string \<Rightarrow> string list \<Rightarrow> post list" where
  "posts_at ts ids = map (mk_post ts) ids"

definition ids_a :: "string list" where
  "ids_a = [''a0'', ''a1'', ''a2'', ''a3'', ''a4'', ''a5'', ''a6'', ''a7'', ''a8'', ''a9'']"

definition ids_b :: "string list" where
  "ids_b = [''b0'', ''b1'', ''b2'', ''b3'', ''b4'', ''b5'', ''b6'', ''b7'', ''b8'', ''b9'']"

definition ids_c :: "string list" where
  "ids_c = [''c0'', ''c1'', ''c2'']"

definition page_payload :: "post list \<Rightarrow> int option \<Rightarrow> string option \<Rightarrow> payload" where
  "page_payload ps rc tok =
     \<lparr>payload_data = Some ps,
      payload_meta = Some \<lparr>meta_result_count = rc, meta_next_token = tok\<rparr>\<rparr>"

definition page_response :: "post list \<Rightarrow> int option \<Rightarrow> string option \<Rightarrow> response" where
  "page_response ps rc tok =
     \<lparr>status_code = 200, retry_after = None, json = Some (page_payload ps rc tok)\<rparr>"

definition status_response :: "int \<Rightarrow> string option \<Rightarrow> response" where
  "status_response code hdr = \<lparr>status_code = code, retry_after = hdr, json = None\<rparr>"

definition feb_request :: "string option \<Rightarrow> request" where
  "feb_request tok =
     \<lparr>pagination_token = tok, max_results = 10,
      start_time = ''2024-02-01T00:00:00Z'', end_time = ''2024-03-01T00:00:00Z'',
      exclude = None\<rparr>"

definition in_feb :: string where
  "in_feb = ''2024-02-10T12:00:00Z''"

definition before_feb :: string where
  "before_feb = ''2024-01-15T00:00:00Z''"

definition after_feb :: string where
  "after_feb = ''2024-03-05T00:00:00Z''"

text \<open>
  A server whose third page returns the cursor of its first page, with the state of the
  fetch after the first page and at the end.
\<close>

definition cycle_server :: server where
  "cycle_server n rq =
     Inr (if n = 0 then page_response (posts_at in_feb ids_a) (Some 10) (Some ''tok-a'')
          else if n = 1 then page_response (posts_at in_feb ids_b) (Some 10) (Some ''tok-b'')
          else page_response (posts_at in_feb ids_a) (Some 10) (Some ''tok-a''))"

definition after_page_a :: fetch_state where
  "after_page_a =
     \<lparr>all_posts = posts_at in_feb ids_a,
      next_token = Some ''tok-a'',
      seen_tokens = {''tok-a''},
      page_idx = 1,
      exchanges =
        [(feb_request None, page_response (posts_at in_feb ids_a) (Some 10) (Some ''tok-a''))],
      slept = []\<rparr>"

definition cycle_final :: fetch_state where
  "cycle_final =
     \<lparr>all_posts = posts_at in_feb ids_a @ posts_at in_feb ids_b @ posts_at in_feb ids_a,
      next_token = Some ''tok-b'',
      seen_tokens = {''tok-b'', ''tok-a''},
      page_idx = 3,
      exchanges =
        [(feb_request None, page_response (posts_at in_feb ids_a) (Some 10) (Some ''tok-a'')),
         (feb_request (Some ''tok-a''), page_response (posts_at in_feb ids_b) (Some 10) (Some ''tok-b'')),
         (feb_request (Some ''tok-b''), page_response (posts_at in_feb ids_a) (Some 10) (Some ''tok-a''))],
      slept = []\<rparr>"

text \<open>A server that returns two full pages and a short third one.\<close>

definition three_page_server :: server where
  "three_page_server n rq =
     Inr (if n = 0 then page_response (posts_at in_feb ids_a) (Some 10) (Some ''tok-a'')
          else if n = 1 then page_response (posts_at in_feb ids_b) (Some 10) (Some ''tok-b'')
          else page_response (posts_at in_feb ids_c) (Some 3) None)"

definition three_page_final :: fetch_state where
  "three_page_final =
     \<lparr>all_posts = posts_at in_feb ids_a @ posts_at in_feb ids_b @ posts_at in_feb ids_c,
      next_token = Some ''tok-b'',
      seen_tokens = {''tok-b'', ''tok-a''},
      page_idx = 3,
      exchanges =
        [(feb_request None, page_response (posts_at in_feb ids_a) (Some 10) (Some ''tok-a'')),
         (feb_request (Some ''tok-a''), page_response (posts_at in_feb ids_b) (Some 10) (Some ''tok-b'')),
         (feb_request (Some ''tok-b''), page_response (posts_at in_feb ids_c) (Some 3) None)],
      slept = []\<rparr>"

text \<open>
  Servers whose first page is short, declares no results, or declares no result count.
\<close>

definition short_first_server :: server where
  "short_first_server n rq =
     Inr (page_response (posts_at in_feb ids_c) (Some 3) (Some ''tok-a''))"

definition zero_count_server :: server where
  "zero_count_server n rq =
     Inr (page_response (posts_at in_feb ids_a) (Some 0) (Some ''tok-a''))"

definition no_count_server :: server where
  "no_count_server n rq =
     Inr (page_response (posts_at in_feb ids_a) None (Some ''tok-a''))"




text \<open>
  A full page whose first item has a \<^verbatim>\<open>created_at\<close> that does not parse and whose other
  items are earlier than the window; the server returns it and then an empty page. And a
  server whose full first page is earlier than the window.
\<close>

definition ids_rest :: "string list" where
  "ids_rest = [''a1'', ''a2'', ''a3'', ''a4'', ''a5'', ''a6'', ''a7'', ''a8'', ''a9'']"

definition mixed_page :: "post list" where
  "mixed_page = mk_post ''not-a-date'' ''a0'' # posts_at before_feb ids_rest"

definition mixed_page_server :: server where
  "mixed_page_server n rq =
     Inr (if n = 0 then page_response mixed_page (Some 10) (Some ''tok-a'')
          else page_response [] (Some 0) None)"

definition mixed_page_final :: fetch_state where
  "mixed_page_final =
     \<lparr>all_posts = mixed_page,
      next_token = Some ''tok-a'',
      seen_tokens = {''tok-a''},
      page_idx = 2,
      exchanges =
        [(feb_request None, page_response mixed_page (Some 10) (Some ''tok-a'')),
         (feb_request (Some ''tok-a''), page_response [] (Some 0) None)],
      slept = []\<rparr>"

definition old_page_server :: server where
  "old_page_server n rq =
     Inr (page_response (posts_at before_feb ids_a) (Some 10) (Some ''tok-a''))"





text \<open>A server whose only page has an item with a \<^verbatim>\<open>created_at\<close> that does not parse.\<close>

definition unparseable_server :: server where
  "unparseable_server n rq =
     Inr (page_response [mk_post in_feb ''a1'', mk_post ''not-a-date'' ''a0''] (Some 2) None)"

section \<open>Properties of the month window\<close>

lemma replace_utc_offset_suffix:
  "CHR ''+'' \<notin> set s \<Longrightarrow> replace_utc_offset (s @ ''+00:00'') = s @ ''Z''"
proof (induction s)
  case Nil
  show ?case by simp
next
  case (Cons a s)
  then have a: "a \<noteq> CHR ''+''" and s: "CHR ''+'' \<notin> set s" by auto
  from a have "take 6 (a # s @ ''+00:00'') \<noteq> ''+00:00''"
    by (simp add: take_Cons')
  then have "replace_utc_offset ((a # s) @ ''+00:00'') = a # replace_utc_offset (s @ ''+00:00'')"
    by simp
  with Cons.IH[OF s] show ?case by simp
qed



lemma digit_nth_mem: "k < 10 \<Longrightarrow> ''0123456789'' ! k \<noteq> CHR ''+''"
proof -
  assume "k < 10"
  then have "k \<in> {0,1,2,3,4,5,6,7,8,9}" by auto
  then show ?thesis by (elim insertE emptyE) simp_all
qed

lemma decimal_no_plus: "CHR ''+'' \<notin> set (decimal n)"
proof (induction n rule: decimal.induct)
  case (1 n)
  show ?case
  proof (cases "n < 10")
    case True
    then have "decimal n = [''0123456789'' ! n]" by (simp add: decimal.simps)
    with True show ?thesis using digit_nth_mem[of n] by auto
  next
    case False
    then have "decimal n = decimal (n div 10) @ [''0123456789'' ! (n mod 10)]"
      by (subst decimal.simps) simp
    moreover have "CHR ''+'' \<notin> set (decimal (n div 10))" using False "1.IH" by blast
    moreover have "''0123456789'' ! (n mod 10) \<noteq> CHR ''+''" by (rule digit_nth_mem) simp
    ultimately show ?thesis by auto
  qed
qed

lemma zero_pad_no_plus: "CHR ''+'' \<notin> set (zero_pad w n)"
  using decimal_no_plus[of n] by (auto simp: zero_pad_def)

lemma days_in_month_range:
  assumes "1 \<le> m" "m \<le> 12"
  shows "28 \<le> days_in_month y m \<and> days_in_month y m \<le> 31"
proof -
  from assms have "m = 1 \<or> m = 2 \<or> m = 3 \<or> m = 4 \<or> m = 5 \<or> m = 6 \<or> m = 7 \<or> m = 8
      \<or> m = 9 \<or> m = 10 \<or> m = 11 \<or> m = 12" by arith
  then show ?thesis
    by (elim disjE) (simp_all add: days_in_month_def mdays_def)
qed

lemma mk_first:
  assumes "1 \<le> y" "y \<le> 9999" "1 \<le> m" "m \<le> 12"
  shows "mk_datetime y m 1 0 0 0 = Inr (first_instant y m)"
  using assms days_in_month_range[of m y] by (simp add: mk_datetime_def first_instant_def)

lemma mk_last:
  assumes "1 \<le> y" "y \<le> 9999" "1 \<le> m" "m \<le> 12"
  shows "mk_datetime y m (days_in_month y m) 23 59 59 =
    Inr \<lparr>year = y, month = m, day = days_in_month y m, hour = 23, minute = 59, second = 59\<rparr>"
  using assms days_in_month_range[of m y] by (simp add: mk_datetime_def)

lemma plus_one_second_last:
  "plus_one_second \<lparr>year = y, month = m, day = days_in_month y m, hour = 23, minute = 59, second = 59\<rparr> =
     (if m < 12 then Inr (first_instant y (m + 1))
      else if y < 9999 then Inr (first_instant (y + 1) 1)
      else Inl OverflowError)"
  by (simp add: plus_one_second_def first_instant_def)

lemma month_bounds_eq:
  assumes "1 \<le> y" "y \<le> 9999" "1 \<le> m" "m \<le> 12"
  shows "month_bounds y m =
     (if m < 12 then Inr (first_instant y m, first_instant y (m + 1))
      else if y < 9999 then Inr (first_instant y m, first_instant (y + 1) 1)
      else Inl OverflowError)"
  using assms
  by (simp add: month_bounds_def mk_first mk_last monthrange_ndays_def plus_one_second_last)

lemma iso_first_instant:
  "replace_utc_offset (isoformat (first_instant y m)) =
     zero_pad 4 (nat y) @ ''-'' @ zero_pad 2 (nat m) @ ''-01T00:00:00Z''"
proof -
  have z1: "zero_pad 2 (Suc 0) = ''01''" by (simp add: zero_pad_def decimal.simps)
  have z0: "zero_pad 2 0 = ''00''" by (simp add: zero_pad_def decimal.simps)
  let ?s = "zero_pad 4 (nat y) @ ''-'' @ zero_pad 2 (nat m) @ ''-01T00:00:00''"
  have iso: "isoformat (first_instant y m) = ?s @ ''+00:00''"
    by (simp add: isoformat_def first_instant_def z1 z0)
  have "CHR ''+'' \<notin> set ?s"
    using zero_pad_no_plus[of 4 "nat y"] zero_pad_no_plus[of 2 "nat m"] by simp
  then have "replace_utc_offset (?s @ ''+00:00'') = ?s @ ''Z''"
    by (rule replace_utc_offset_suffix)
  with iso show ?thesis by simp
qed

lemma earlier_next:
  assumes "1 \<le> m" "m \<le> 12"
  shows "earlier (first_instant y m) (first_instant (fst (following_month y m)) (snd (following_month y m)))"
  using assms by (simp add: earlier_def dt_key_def first_instant_def following_month_def)

text \<open>
  Claim C8, as amended. For every year in \<open>1..9999\<close> and month in \<open>1..12\<close> other than
  December 9999, \<^verbatim>\<open>iso_month_bounds\<close> returns as start the first instant (midnight UTC)
  of day 1 of the month and as end the first instant of day 1 of the following month,
  January of the next year after December, whatever the length of the month; both are
  rendered as \<^verbatim>\<open>YYYY-MM-01T00:00:00Z\<close>, and the start is earlier than the end. For
  December 9999 the end is not a \<^verbatim>\<open>datetime\<close> and the function raises.
\<close>

theorem iso_month_bounds_first_instants:
  assumes "1 \<le> y" and "y \<le> 9999" and "1 \<le> m" and "m \<le> 12"
    and "\<not> (y = 9999 \<and> m = 12)"
  shows "month_bounds y m =
           Inr (first_instant y m,
                first_instant (fst (following_month y m)) (snd (following_month y m)))
       \<and> iso_month_bounds y m =
           Inr (zero_pad 4 (nat y) @ ''-'' @ zero_pad 2 (nat m) @ ''-01T00:00:00Z'',
                zero_pad 4 (nat (fst (following_month y m))) @ ''-'' @
                zero_pad 2 (nat (snd (following_month y m))) @ ''-01T00:00:00Z'')
       \<and> earlier (first_instant y m)
            (first_instant (fst (following_month y m)) (snd (following_month y m)))"
proof -
  have mb: "month_bounds y m =
      Inr (first_instant y m,
           first_instant (fst (following_month y m)) (snd (following_month y m)))"
    using assms by (simp add: month_bounds_eq following_month_def)
  then have "iso_month_bounds y m =
      Inr (replace_utc_offset (isoformat (first_instant y m)),
           replace_utc_offset (isoformat
             (first_instant (fst (following_month y m)) (snd (following_month y m)))))"
    by (simp add: iso_month_bounds_def)
  with mb earlier_next[OF assms(3,4)] show ?thesis
    by (simp only: iso_first_instant simp_thms)
qed

text \<open>The year rollover of December 2023, by the theorem.\<close>

theorem iso_month_bounds_first_instants_witness:
  "(1::int) \<le> 2023 \<and> (2023::int) \<le> 9999 \<and> (1::int) \<le> 12 \<and> (12::int) \<le> 12
   \<and> \<not> ((2023::int) = 9999 \<and> (12::int) = 12)
   \<and> iso_month_bounds 2023 12 = Inr (''2023-12-01T00:00:00Z'', ''2024-01-01T00:00:00Z'')
   \<and> month_bounds 2023 12 = Inr (first_instant 2023 12, first_instant 2024 1)
   \<and> earlier (first_instant 2023 12) (first_instant 2024 1)"
  using iso_month_bounds_first_instants [of 2023 12]
  by (simp add: following_month_def zero_pad_def decimal.simps)

text \<open>
  The claim as it is written covers every valid pair, and (9999, 12) is one: both
  \<^verbatim>\<open>datetime(9999, 12, 1)\<close> and \<^verbatim>\<open>datetime(9999, 12, 31, 23, 59, 59)\<close> are built, and
  adding the second raises.
\<close>

theorem iso_month_bounds_december_9999:
  "iso_month_bounds 9999 12 = Inl OverflowError"
  by (simp add: iso_month_bounds_def month_bounds_def mk_datetime_def monthrange_ndays_def
      plus_one_second_def days_in_month_def mdays_def)

section \<open>Properties of the pagination loop\<close>

lemma fetch_loop_raise:
  "loop_step sleep_max parse args ws st (build_request args st) (srv n (build_request args st)) = Inl e
   \<Longrightarrow> fetch_loop sleep_max parse srv args ws n st = Some (Inl e)"
  by (subst fetch_loop.simps) simp

lemma fetch_loop_Break:
  "loop_step sleep_max parse args ws st (build_request args st) (srv n (build_request args st)) = Inr (st', Break)
   \<Longrightarrow> fetch_loop sleep_max parse srv args ws n st = Some (Inr st')"
  by (subst fetch_loop.simps) simp

lemma fetch_loop_Continue:
  "loop_step sleep_max parse args ws st (build_request args st) (srv n (build_request args st)) = Inr (st', Continue)
   \<Longrightarrow> fetch_loop sleep_max parse srv args ws n st = fetch_loop sleep_max parse srv args ws (Suc n) st'"
  by (subst fetch_loop.simps) simp

lemma handle_page_fields:
  "all_posts (fst (handle_page parse args ws st pl)) = all_posts st @ page_posts pl"
  "page_idx (fst (handle_page parse args ws st pl)) = page_idx st + 1"
  "exchanges (fst (handle_page parse args ws st pl)) = exchanges st"
  "slept (fst (handle_page parse args ws st pl)) = slept st"
  by (simp_all add: handle_page_def Let_def split: option.split)

lemma handle_page_Break:
  "handle_page parse args ws st pl = (st', Break) \<Longrightarrow>
     st' = st\<lparr>page_idx := page_idx st + 1, all_posts := all_posts st @ page_posts pl\<rparr>"
  by (simp add: handle_page_def Let_def split: option.splits if_splits)

lemma handle_page_Continue:
  "handle_page parse args ws st pl = (st', Continue) \<Longrightarrow>
     (\<exists>t. meta_next_token (page_meta pl) = Some t \<and> t \<notin> seen_tokens st
        \<and> st' = st\<lparr>page_idx := page_idx st + 1, all_posts := all_posts st @ page_posts pl,
                   seen_tokens := insert t (seen_tokens st), next_token := Some t\<rparr>)
     \<and> page_posts pl \<noteq> [] \<and> page_result_count pl \<noteq> 0
     \<and> \<not> int (length (page_posts pl)) < max_per_request args
     \<and> \<not> oldest_before_start parse ws (page_posts pl)"
  by (auto simp add: handle_page_def Let_def split: option.splits if_splits)

lemma handle_page_stop_empty:
  "page_posts pl = [] \<or> page_result_count pl = 0 \<Longrightarrow>
   handle_page parse args ws st pl =
     (st\<lparr>page_idx := page_idx st + 1, all_posts := all_posts st @ page_posts pl\<rparr>, Break)"
  by (auto simp add: handle_page_def Let_def)

lemma handle_page_stop_short:
  "int (length (page_posts pl)) < max_per_request args \<Longrightarrow>
   handle_page parse args ws st pl =
     (st\<lparr>page_idx := page_idx st + 1, all_posts := all_posts st @ page_posts pl\<rparr>, Break)"
  by (auto simp add: handle_page_def Let_def)

lemma handle_page_stop_oldest:
  "oldest_before_start parse ws (page_posts pl) \<Longrightarrow>
   handle_page parse args ws st pl =
     (st\<lparr>page_idx := page_idx st + 1, all_posts := all_posts st @ page_posts pl\<rparr>, Break)"
  by (auto simp add: handle_page_def Let_def)

lemma loop_step_page:
  "answer = Inr r \<Longrightarrow> status_code r = 200 \<Longrightarrow> json r = Some pl \<Longrightarrow>
   loop_step sleep_max parse args ws st rq answer =
     Inr (handle_page parse args ws (st\<lparr>exchanges := exchanges st @ [(rq, r)]\<rparr>) pl)"
  by (simp add: loop_step_def Let_def)


lemma loop_step_throttle:
  "answer = Inr r \<Longrightarrow> status_code r = 429 \<or> status_code r = 503 \<Longrightarrow>
   loop_step sleep_max parse args ws st rq answer =
     (case backoff_sleep sleep_max r 60 (slept st) of
        Inl e \<Rightarrow> Inl e
      | Inr sl \<Rightarrow> Inr (st\<lparr>exchanges := exchanges st @ [(rq, r)], slept := sl\<rparr>, Continue))"
  by (auto simp add: loop_step_def Let_def split: sum.splits)

lemma loop_step_throttle_Inr:
  assumes "answer = Inr r" and "status_code r = 429 \<or> status_code r = 503"
    and "loop_step sleep_max parse args ws st rq answer = Inr (st', c)"
  shows "\<exists>sl. st' = st\<lparr>exchanges := exchanges st @ [(rq, r)], slept := sl\<rparr> \<and> c = Continue"
  using assms(3) loop_step_throttle[OF assms(1,2), of sleep_max parse args ws st rq]
  by (cases "backoff_sleep sleep_max r 60 (slept st)") auto

lemma loop_step_other:
  "answer = Inr r \<Longrightarrow> status_code r \<noteq> 200 \<Longrightarrow> status_code r \<noteq> 429 \<Longrightarrow> status_code r \<noteq> 503 \<Longrightarrow>
   loop_step sleep_max parse args ws st rq answer = Inr (st\<lparr>exchanges := exchanges st @ [(rq, r)]\<rparr>, Break)"
  by (simp add: loop_step_def Let_def)

lemma successful_cursors_snoc:
  "successful_cursors (xs @ [(rq, r)]) =
     successful_cursors xs @
       (if status_code r = 200
        then (case pagination_token rq of None \<Rightarrow> [] | Some t \<Rightarrow> [t]) else [])"
  by (simp add: successful_cursors_def)

lemma cursor_inv_init: "cursor_inv init_state"
  by (simp add: cursor_inv_def init_state_def successful_cursors_def)

lemma build_request_token:
  "pagination_token (build_request args st) = Some t \<Longrightarrow> next_token st = Some t"
  by (simp add: build_request_def split: option.splits if_splits)

lemma cursor_inv_snoc:
  assumes "cursor_inv st"
  shows "distinct (successful_cursors (exchanges st @ [(build_request args st, r)]))"
    and "set (successful_cursors (exchanges st @ [(build_request args st, r)])) \<subseteq> seen_tokens st"
proof -
  let ?old = "successful_cursors (exchanges st)"
  let ?new = "successful_cursors (exchanges st @ [(build_request args st, r)])"
  from assms have d: "distinct ?old" and sub: "set ?old \<subseteq> seen_tokens st"
    by (simp_all add: cursor_inv_def)
  have both: "distinct ?new \<and> set ?new \<subseteq> seen_tokens st"
  proof (cases "status_code r = 200")
    case False
    then have "?new = ?old" by (simp add: successful_cursors_snoc)
    with d sub show ?thesis by simp
  next
    case True
    show ?thesis
    proof (cases "pagination_token (build_request args st)")
      case None
      with True have "?new = ?old" by (simp add: successful_cursors_snoc)
      with d sub show ?thesis by simp
    next
      case (Some t)
      then have "next_token st = Some t" by (rule build_request_token)
      with assms have "t \<in> seen_tokens st" and "t \<notin> set ?old"
        by (simp_all add: cursor_inv_def)
      moreover from True Some have "?new = ?old @ [t]" by (simp add: successful_cursors_snoc)
      ultimately show ?thesis using d sub by simp
    qed
  qed
  from both show "distinct ?new" by simp
  from both show "set ?new \<subseteq> seen_tokens st" by simp
qed

lemma loop_step_cursor_inv:
  assumes inv: "cursor_inv st"
    and step: "loop_step sleep_max parse args ws st (build_request args st) answer = Inr (st', c)"
  shows "distinct (successful_cursors (exchanges st')) \<and> (c = Continue \<longrightarrow> cursor_inv st')"
proof -
  from step obtain r where ans: "answer = Inr r"
    by (cases answer) (simp_all add: loop_step_def)
  let ?rq = "build_request args st"
  let ?st0 = "st\<lparr>exchanges := exchanges st @ [(?rq, r)]\<rparr>"
  note d0 = cursor_inv_snoc(1)[OF inv, of args r] and s0 = cursor_inv_snoc(2)[OF inv, of args r]
  show ?thesis
  proof (cases "status_code r = 200")
    case True
    with step ans obtain pl where pl: "json r = Some pl"
      and hp: "handle_page parse args ws ?st0 pl = (st', c)"
      by (cases "json r") (simp_all add: loop_step_def Let_def)
    have ex: "exchanges st' = exchanges st @ [(?rq, r)]"
      using handle_page_fields(3)[of parse args ws ?st0 pl] hp by simp
    show ?thesis
    proof (cases c)
      case Break
      with ex d0 show ?thesis by simp
    next
      case Continue
      with hp handle_page_Continue[of parse args ws ?st0 pl st']
      obtain t where t: "t \<notin> seen_tokens st" and seen: "seen_tokens st' = insert t (seen_tokens st)"
        and nt: "next_token st' = Some t"
        by auto
      from s0 t have "t \<notin> set (successful_cursors (exchanges st @ [(?rq, r)]))" by blast
      with ex d0 s0 seen nt show ?thesis by (auto simp: cursor_inv_def)
    qed
  next
    case False
    show ?thesis
    proof (cases "status_code r = 429 \<or> status_code r = 503")
      case True
      with step ans loop_step_throttle_Inr[of answer r sleep_max parse args ws st ?rq st' c]
      obtain sl where st': "st' = st\<lparr>exchanges := exchanges st @ [(?rq, r)], slept := sl\<rparr>"
        by blast
      with inv False show ?thesis
        by (auto simp: cursor_inv_def successful_cursors_snoc)
    next
      case other: False
      with step ans False loop_step_other[of answer r sleep_max parse args ws st ?rq]
      have "st' = ?st0" and "c = Break" by simp_all
      with d0 show ?thesis by simp
    qed
  qed
qed

lemma fetch_loop_distinct_cursors:
  assumes run: "fetch_loop sleep_max parse srv args ws n st = Some out"
  shows "cursor_inv st \<longrightarrow> (\<forall>fin. out = Inr fin \<longrightarrow> distinct (successful_cursors (exchanges fin)))"
proof (rule fetch_loop.raw_induct
    [where P = "\<lambda>sleep_max parse srv args ws n st out.
       cursor_inv st \<longrightarrow> (\<forall>fin. out = Inr fin \<longrightarrow> distinct (successful_cursors (exchanges fin)))",
     OF _ run])
  fix f :: "int \<Rightarrow> fromisoformat \<Rightarrow> server \<Rightarrow> fetch_args \<Rightarrow> dtval \<Rightarrow> nat \<Rightarrow> fetch_state
     \<Rightarrow> (error + fetch_state) option"
  fix sleep_max parse srv args ws n st out
  assume IH: "\<And>sleep_max parse srv args ws n st out. f sleep_max parse srv args ws n st = Some out \<Longrightarrow>
     cursor_inv st \<longrightarrow> (\<forall>fin. out = Inr fin \<longrightarrow> distinct (successful_cursors (exchanges fin)))"
  assume body: "(case loop_step sleep_max parse args ws st (build_request args st)
            (srv n (build_request args st)) of
      Inl e \<Rightarrow> Some (Inl e)
      | Inr (st', Continue) \<Rightarrow> f sleep_max parse srv args ws (Suc n) st'
      | Inr (st', Break) \<Rightarrow> Some (Inr st')) = Some out"
  show "cursor_inv st \<longrightarrow> (\<forall>fin. out = Inr fin \<longrightarrow> distinct (successful_cursors (exchanges fin)))"
  proof (intro impI allI)
    fix fin assume inv: "cursor_inv st" and out: "out = Inr fin"
    let ?step = "loop_step sleep_max parse args ws st (build_request args st) (srv n (build_request args st))"
    show "distinct (successful_cursors (exchanges fin))"
    proof (cases ?step)
      case (Inl e)
      with body out show ?thesis by simp
    next
      case (Inr p)
      then obtain st' c where p: "?step = Inr (st', c)" by (cases p) auto
      from loop_step_cursor_inv[OF inv p]
      have d: "distinct (successful_cursors (exchanges st'))" and ci: "c = Continue \<longrightarrow> cursor_inv st'"
        by simp_all
      show ?thesis
      proof (cases c)
        case Break
        with p body out d show ?thesis by simp
      next
        case Continue
        with p body have "f sleep_max parse srv args ws (Suc n) st' = Some out" by simp
        from IH[OF this] Continue ci out show ?thesis by simp
      qed
    qed
  qed
qed

lemma fetch_loop_terminates:
  assumes fin: "finite C" and nt: "no_throttling srv" and cw: "cursors_within srv C"
  shows "\<exists>out. fetch_loop sleep_max parse srv args ws n st = Some out
           \<and> (\<forall>fin. out = Inr fin \<longrightarrow> page_idx fin \<le> page_idx st + card (C - seen_tokens st) + 1)"
proof (induction "card (C - seen_tokens st)" arbitrary: n st rule: less_induct)
  case less
  let ?rq = "build_request args st"
  let ?step = "loop_step sleep_max parse args ws st ?rq (srv n ?rq)"
  show ?case
  proof (cases ?step)
    case (Inl e)
    then show ?thesis using fetch_loop_raise[of sleep_max parse args ws st srv n e] by simp
  next
    case (Inr p)
    then obtain st' c where p: "?step = Inr (st', c)" by (cases p) auto
    then obtain r where ans: "srv n ?rq = Inr r"
      by (cases "srv n ?rq") (simp_all add: loop_step_def)
    from nt ans have nthr: "status_code r \<noteq> 429" "status_code r \<noteq> 503"
      by (auto simp: no_throttling_def)
    let ?st0 = "st\<lparr>exchanges := exchanges st @ [(?rq, r)]\<rparr>"
    show ?thesis
    proof (cases c)
      case Break
      with p have fl: "fetch_loop sleep_max parse srv args ws n st = Some (Inr st')"
        using fetch_loop_Break[of sleep_max parse args ws st srv n st'] by simp
      have "page_idx st' \<le> page_idx st + 1"
      proof (cases "status_code r = 200")
        case True
        with p ans obtain pl where "handle_page parse args ws ?st0 pl = (st', c)"
          by (cases "json r") (simp_all add: loop_step_def Let_def)
        with handle_page_fields(2)[of parse args ws ?st0 pl] show ?thesis by simp
      next
        case False
        with p ans nthr loop_step_other[of "srv n ?rq" r sleep_max parse args ws st ?rq]
        show ?thesis by simp
      qed
      with fl show ?thesis by simp
    next
      case Continue
      with p have eq: "fetch_loop sleep_max parse srv args ws n st = fetch_loop sleep_max parse srv args ws (Suc n) st'"
        using fetch_loop_Continue[of sleep_max parse args ws st srv n st'] by simp
      have s200: "status_code r = 200"
      proof (rule ccontr)
        assume "status_code r \<noteq> 200"
        with p ans nthr loop_step_other[of "srv n ?rq" r sleep_max parse args ws st ?rq] Continue
        show False by simp
      qed
      with p ans obtain pl where pl: "json r = Some pl"
        and hp: "handle_page parse args ws ?st0 pl = (st', c)"
        by (cases "json r") (simp_all add: loop_step_def Let_def)
      from hp Continue handle_page_Continue[of parse args ws ?st0 pl st']
      obtain t where tok: "meta_next_token (page_meta pl) = Some t" and new: "t \<notin> seen_tokens st"
        and seen: "seen_tokens st' = insert t (seen_tokens st)"
        and idx: "page_idx st' = page_idx st + 1"
        by auto
      from cw ans s200 pl tok have tC: "t \<in> C" by (auto simp: cursors_within_def)
      have sub: "C - seen_tokens st' \<subset> C - seen_tokens st"
        using tC new seen by auto
      with fin have lt: "card (C - seen_tokens st') < card (C - seen_tokens st)"
        by (intro psubset_card_mono) auto
      from less[OF lt, of "Suc n"] obtain out where
        out: "fetch_loop sleep_max parse srv args ws (Suc n) st' = Some out"
        and bd: "\<forall>fin. out = Inr fin \<longrightarrow> page_idx fin \<le> page_idx st' + card (C - seen_tokens st') + 1"
        by blast
      from bd idx lt have "\<forall>fin. out = Inr fin \<longrightarrow> page_idx fin \<le> page_idx st + card (C - seen_tokens st) + 1"
        by auto
      with eq out show ?thesis by simp
    qed
  qed
qed

lemma stop_after_page:
  assumes ans: "srv n (build_request args st) = Inr r"
    and ok: "status_code r = 200" and pl: "json r = Some pl"
    and stop: "page_posts pl = [] \<or> page_result_count pl = 0
       \<or> int (length (page_posts pl)) < max_per_request args
       \<or> oldest_before_start parse ws (page_posts pl)"
  shows "fetch_loop sleep_max parse srv args ws n st =
     Some (Inr (st\<lparr>exchanges := exchanges st @ [(build_request args st, r)],
                   page_idx := page_idx st + 1,
                   all_posts := all_posts st @ page_posts pl\<rparr>))"
proof -
  let ?st0 = "st\<lparr>exchanges := exchanges st @ [(build_request args st, r)]\<rparr>"
  let ?st1 = "?st0\<lparr>page_idx := page_idx ?st0 + 1, all_posts := all_posts ?st0 @ page_posts pl\<rparr>"
  from stop have "handle_page parse args ws ?st0 pl = (?st1, Break)"
    using handle_page_stop_empty[of pl parse args ws ?st0]
      handle_page_stop_short[of pl args parse ws ?st0]
      handle_page_stop_oldest[of parse ws pl args ?st0]
    by blast
  with ans ok pl have "loop_step sleep_max parse args ws st (build_request args st)
      (srv n (build_request args st)) = Inr (?st1, Break)"
    by (simp add: loop_step_page)
  then show ?thesis
    using fetch_loop_Break[of sleep_max parse args ws st srv n ?st1] by simp
qed

lemma build_request_next_token:
  "next_token st = next_token st' \<Longrightarrow> build_request args st = build_request args st'"
  by (simp add: build_request_def)

lemma build_request_after:
  "next_token st = Some c \<Longrightarrow> build_request args st = request_after args c"
  by (simp add: request_after_def build_request_def)

lemma handle_page_full:
  assumes "full_page parse args ws pl" and "meta_next_token (page_meta pl) = Some c"
    and "c \<notin> seen_tokens st"
  shows "handle_page parse args ws st pl =
     (st\<lparr>page_idx := page_idx st + 1, all_posts := all_posts st @ page_posts pl,
         seen_tokens := insert c (seen_tokens st), next_token := Some c\<rparr>, Continue)"
  using assms by (simp add: handle_page_def full_page_def Let_def)

lemma continue_after_full_page:
  assumes ans: "srv n (build_request args st) = Inr r"
    and ok: "status_code r = 200" and pl: "json r = Some pl"
    and full: "full_page parse args ws pl" and tok: "meta_next_token (page_meta pl) = Some c"
    and new: "c \<notin> seen_tokens st"
  shows "fetch_loop sleep_max parse srv args ws n st =
     fetch_loop sleep_max parse srv args ws (Suc n)
       (st\<lparr>exchanges := exchanges st @ [(build_request args st, r)],
           page_idx := page_idx st + 1,
           all_posts := all_posts st @ page_posts pl,
           seen_tokens := insert c (seen_tokens st),
           next_token := Some c\<rparr>)"
proof -
  let ?st0 = "st\<lparr>exchanges := exchanges st @ [(build_request args st, r)]\<rparr>"
  let ?st1 = "?st0\<lparr>page_idx := page_idx ?st0 + 1, all_posts := all_posts ?st0 @ page_posts pl,
         seen_tokens := insert c (seen_tokens ?st0), next_token := Some c\<rparr>"
  from new have "c \<notin> seen_tokens ?st0" by simp
  from handle_page_full[OF full tok this]
  have "handle_page parse args ws ?st0 pl = (?st1, Continue)" .
  with ans ok pl have "loop_step sleep_max parse args ws st (build_request args st)
      (srv n (build_request args st)) = Inr (?st1, Continue)"
    by (simp add: loop_step_page)
  then show ?thesis
    using fetch_loop_Continue[of sleep_max parse args ws st srv n ?st1] by simp
qed

lemmas example_defs = feb_args_def main_fetch_args_def main_max_per_request_def feb_start_def feb_end_def
  mk_post_def posts_at_def ids_a_def ids_b_def ids_c_def page_response_def page_payload_def status_response_def
  feb_request_def in_feb_def before_feb_def after_feb_def iso_table_def init_state_def

lemmas step_defs = loop_step_def handle_page_def build_request_def page_posts_def page_meta_def
  page_result_count_def oldest_before_start_def replace_Z_def excludes_def Let_def

lemma cycle_run:
  "fetch_loop example_sleep_max iso_table cycle_server feb_args feb_start 0 init_state = Some (Inr cycle_final)"
  apply (subst fetch_loop.simps, simp add: cycle_server_def example_defs step_defs)
  apply (subst fetch_loop.simps, simp add: cycle_server_def example_defs step_defs)
  apply (subst fetch_loop.simps, simp add: cycle_server_def example_defs step_defs cycle_final_def)
  done

lemma cycle_server_props:
  "no_throttling cycle_server" "cursors_within cycle_server {''tok-a'', ''tok-b''}"
  by (auto simp: no_throttling_def cursors_within_def cycle_server_def page_response_def
      page_payload_def page_meta_def split: if_splits)

text \<open>
  Claim C1. After a page with status 200 that no earlier condition stops, a missing cursor
  stops the loop, a cursor that is already in the seen-set stops the loop, and the loop
  continues only with a cursor that was not in the seen-set, which it records in the
  seen-set as it makes it the current cursor. Consequently the cursors used by the
  successful requests of a fetch are distinct; and when the server never throttles and
  issues cursors from a finite set \<open>C\<close>, the loop returns, after at most one page more
  than there are cursors of \<open>C\<close> not seen yet. (An empty string as cursor is recorded like
  any other and stops a later repetition; the request that follows it carries no
  \<^verbatim>\<open>pagination_token\<close>, since the empty string is not truthy.)
\<close>

theorem cursor_cycle_protection:
  "(meta_next_token (page_meta pl1) = None \<longrightarrow> snd (handle_page parse args ws st1 pl1) = Break)
   \<and> (meta_next_token (page_meta pl2) = Some t2 \<and> t2 \<in> seen_tokens st2 \<longrightarrow>
        snd (handle_page parse args ws st2 pl2) = Break)
   \<and> (handle_page parse args ws st3 pl3 = (st3', Continue) \<longrightarrow>
        (\<exists>t. meta_next_token (page_meta pl3) = Some t \<and> t \<notin> seen_tokens st3
           \<and> seen_tokens st3' = insert t (seen_tokens st3) \<and> next_token st3' = Some t))
   \<and> (fetch_loop sleep_max parse srv args ws 0 init_state = Some (Inr fin) \<longrightarrow>
        distinct (successful_cursors (exchanges fin)))
   \<and> (finite C \<and> no_throttling srv' \<and> cursors_within srv' C \<longrightarrow>
        (\<exists>out. fetch_loop sleep_max parse srv' args ws n st = Some out
           \<and> (case out of Inl e \<Rightarrow> True
               | Inr fin' \<Rightarrow> page_idx fin' \<le> page_idx st + card (C - seen_tokens st) + 1)))"
proof (intro conjI impI)
  assume "meta_next_token (page_meta pl1) = None"
  then show "snd (handle_page parse args ws st1 pl1) = Break"
    by (simp add: handle_page_def Let_def)
next
  assume "meta_next_token (page_meta pl2) = Some t2 \<and> t2 \<in> seen_tokens st2"
  then show "snd (handle_page parse args ws st2 pl2) = Break"
    by (simp add: handle_page_def Let_def)
next
  assume "handle_page parse args ws st3 pl3 = (st3', Continue)"
  from handle_page_Continue[OF this]
  show "\<exists>t. meta_next_token (page_meta pl3) = Some t \<and> t \<notin> seen_tokens st3
           \<and> seen_tokens st3' = insert t (seen_tokens st3) \<and> next_token st3' = Some t"
    by auto
next
  assume "fetch_loop sleep_max parse srv args ws 0 init_state = Some (Inr fin)"
  from fetch_loop_distinct_cursors[OF this] cursor_inv_init
  show "distinct (successful_cursors (exchanges fin))" by simp
next
  assume "finite C \<and> no_throttling srv' \<and> cursors_within srv' C"
  then have "\<exists>out. fetch_loop sleep_max parse srv' args ws n st = Some out
           \<and> (\<forall>fin. out = Inr fin \<longrightarrow> page_idx fin \<le> page_idx st + card (C - seen_tokens st) + 1)"
    using fetch_loop_terminates[of C srv' sleep_max parse args ws n st] by simp
  then show "\<exists>out. fetch_loop sleep_max parse srv' args ws n st = Some out
           \<and> (case out of Inl e \<Rightarrow> True
               | Inr fin' \<Rightarrow> page_idx fin' \<le> page_idx st + card (C - seen_tokens st) + 1)"
    by (auto split: sum.splits)
qed

text \<open>
  A server whose third page returns the cursor of the first: the fetch stops after three
  pages, having used the cursors \<^verbatim>\<open>tok-a\<close> and \<^verbatim>\<open>tok-b\<close> once each.
\<close>

theorem cursor_cycle_protection_witness:
  "meta_next_token (page_meta (page_payload (posts_at in_feb ids_a) (Some 10) None)) = None
   \<and> snd (handle_page iso_table feb_args feb_start init_state
            (page_payload (posts_at in_feb ids_a) (Some 10) None)) = Break
   \<and> meta_next_token (page_meta (page_payload (posts_at in_feb ids_b) (Some 10) (Some ''tok-a'')))
       = Some ''tok-a''
   \<and> ''tok-a'' \<in> seen_tokens after_page_a
   \<and> snd (handle_page iso_table feb_args feb_start after_page_a
            (page_payload (posts_at in_feb ids_b) (Some 10) (Some ''tok-a''))) = Break
   \<and> handle_page iso_table feb_args feb_start init_state
        (page_payload (posts_at in_feb ids_a) (Some 10) (Some ''tok-a''))
       = (after_page_a\<lparr>exchanges := []\<rparr>, Continue)
   \<and> ''tok-a'' \<notin> seen_tokens init_state
   \<and> seen_tokens (after_page_a\<lparr>exchanges := []\<rparr>) = insert ''tok-a'' (seen_tokens init_state)
   \<and> fetch_loop example_sleep_max iso_table cycle_server feb_args feb_start 0 init_state = Some (Inr cycle_final)
   \<and> successful_cursors (exchanges cycle_final) = [''tok-a'', ''tok-b'']
   \<and> distinct (successful_cursors (exchanges cycle_final))
   \<and> finite {''tok-a'', ''tok-b''} \<and> no_throttling cycle_server
   \<and> cursors_within cycle_server {''tok-a'', ''tok-b''}
   \<and> page_idx cycle_final \<le> page_idx init_state + card ({''tok-a'', ''tok-b''} - seen_tokens init_state) + 1"
proof -
  note T = cursor_cycle_protection
    [of "page_payload (posts_at in_feb ids_a) (Some 10) None" iso_table feb_args feb_start init_state
        "page_payload (posts_at in_feb ids_b) (Some 10) (Some ''tok-a'')" "''tok-a''" after_page_a
        init_state "page_payload (posts_at in_feb ids_a) (Some 10) (Some ''tok-a'')"
        "after_page_a\<lparr>exchanges := []\<rparr>" example_sleep_max cycle_server cycle_final
        "{''tok-a'', ''tok-b''}"
        cycle_server 0 init_state]
  have h1: "meta_next_token (page_meta (page_payload (posts_at in_feb ids_a) (Some 10) None)) = None"
    by (simp add: page_payload_def page_meta_def)
  have h2: "meta_next_token (page_meta (page_payload (posts_at in_feb ids_b) (Some 10) (Some ''tok-a'')))
       = Some ''tok-a'' \<and> ''tok-a'' \<in> seen_tokens after_page_a"
    by (simp add: page_payload_def page_meta_def after_page_a_def)
  have h3: "handle_page iso_table feb_args feb_start init_state
        (page_payload (posts_at in_feb ids_a) (Some 10) (Some ''tok-a''))
       = (after_page_a\<lparr>exchanges := []\<rparr>, Continue)"
    by (simp add: example_defs step_defs after_page_a_def)
  have h4: "fetch_loop example_sleep_max iso_table cycle_server feb_args feb_start 0 init_state = Some (Inr cycle_final)"
    by (rule cycle_run)
  have h5: "finite {''tok-a'', ''tok-b''} \<and> no_throttling cycle_server
      \<and> cursors_within cycle_server {''tok-a'', ''tok-b''}"
    using cycle_server_props by simp
  have e1: "successful_cursors (exchanges cycle_final) = [''tok-a'', ''tok-b'']"
    by (simp add: cycle_final_def successful_cursors_def feb_request_def page_response_def)
  have e2: "''tok-a'' \<notin> seen_tokens init_state
     \<and> seen_tokens (after_page_a\<lparr>exchanges := []\<rparr>) = insert ''tok-a'' (seen_tokens init_state)"
    by (simp add: init_state_def after_page_a_def)
  from T h1 h2 h3 h4 h5 have
    c1: "snd (handle_page iso_table feb_args feb_start init_state
            (page_payload (posts_at in_feb ids_a) (Some 10) None)) = Break"
    and c2: "snd (handle_page iso_table feb_args feb_start after_page_a
            (page_payload (posts_at in_feb ids_b) (Some 10) (Some ''tok-a''))) = Break"
    and c4: "distinct (successful_cursors (exchanges cycle_final))"
    and c5: "page_idx cycle_final \<le> page_idx init_state + card ({''tok-a'', ''tok-b''} - seen_tokens init_state) + 1"
    by simp_all
  from h1 h2 h3 h4 h5 e1 e2 c1 c2 c4 c5 show ?thesis by simp
qed

lemma received_posts_snoc:
  "received_posts (xs @ [(rq, r)]) = received_posts xs @ response_posts r"
  by (simp add: received_posts_def)

lemma loop_step_received:
  assumes step: "loop_step sleep_max parse args ws st rq answer = Inr (st', c)"
    and inv: "all_posts st = received_posts (exchanges st)"
  shows "all_posts st' = received_posts (exchanges st')"
proof -
  from step obtain r where ans: "answer = Inr r"
    by (cases answer) (simp_all add: loop_step_def)
  let ?st0 = "st\<lparr>exchanges := exchanges st @ [(rq, r)]\<rparr>"
  show ?thesis
  proof (cases "status_code r = 200")
    case True
    with step ans obtain pl where pl: "json r = Some pl"
      and hp: "handle_page parse args ws ?st0 pl = (st', c)"
      by (cases "json r") (simp_all add: loop_step_def Let_def)
    from hp handle_page_fields(1,3)[of parse args ws ?st0 pl]
    have "all_posts st' = all_posts st @ page_posts pl"
      and "exchanges st' = exchanges st @ [(rq, r)]" by simp_all
    with inv True pl show ?thesis
      by (simp add: received_posts_snoc response_posts_def)
  next
    case False
    show ?thesis
    proof (cases "status_code r = 429 \<or> status_code r = 503")
      case True
      with step ans loop_step_throttle_Inr[of answer r sleep_max parse args ws st rq st' c]
      obtain sl where "st' = st\<lparr>exchanges := exchanges st @ [(rq, r)], slept := sl\<rparr>"
        by blast
      with inv False show ?thesis
        by (simp add: received_posts_snoc response_posts_def)
    next
      case other: False
      with step ans False loop_step_other[of answer r sleep_max parse args ws st rq]
      have "st' = ?st0" by simp
      with inv False show ?thesis
        by (simp add: received_posts_snoc response_posts_def)
    qed
  qed
qed

lemma fetch_loop_received:
  assumes run: "fetch_loop sleep_max parse srv args ws n st = Some out"
  shows "all_posts st = received_posts (exchanges st) \<longrightarrow>
     (\<forall>fin. out = Inr fin \<longrightarrow> all_posts fin = received_posts (exchanges fin))"
proof (rule fetch_loop.raw_induct
    [where P = "\<lambda>sleep_max parse srv args ws n st out.
       all_posts st = received_posts (exchanges st) \<longrightarrow>
       (\<forall>fin. out = Inr fin \<longrightarrow> all_posts fin = received_posts (exchanges fin))",
     OF _ run])
  fix f :: "int \<Rightarrow> fromisoformat \<Rightarrow> server \<Rightarrow> fetch_args \<Rightarrow> dtval \<Rightarrow> nat \<Rightarrow> fetch_state
     \<Rightarrow> (error + fetch_state) option"
  fix sleep_max parse srv args ws n st out
  assume IH: "\<And>sleep_max parse srv args ws n st out. f sleep_max parse srv args ws n st = Some out \<Longrightarrow>
     all_posts st = received_posts (exchanges st) \<longrightarrow>
     (\<forall>fin. out = Inr fin \<longrightarrow> all_posts fin = received_posts (exchanges fin))"
  assume body: "(case loop_step sleep_max parse args ws st (build_request args st)
            (srv n (build_request args st)) of
      Inl e \<Rightarrow> Some (Inl e)
      | Inr (st', Continue) \<Rightarrow> f sleep_max parse srv args ws (Suc n) st'
      | Inr (st', Break) \<Rightarrow> Some (Inr st')) = Some out"
  show "all_posts st = received_posts (exchanges st) \<longrightarrow>
     (\<forall>fin. out = Inr fin \<longrightarrow> all_posts fin = received_posts (exchanges fin))"
  proof (intro impI allI)
    fix fin assume inv: "all_posts st = received_posts (exchanges st)" and out: "out = Inr fin"
    let ?step = "loop_step sleep_max parse args ws st (build_request args st) (srv n (build_request args st))"
    show "all_posts fin = received_posts (exchanges fin)"
    proof (cases ?step)
      case (Inl e)
      with body out show ?thesis by simp
    next
      case (Inr p)
      then obtain st' c where p: "?step = Inr (st', c)" by (cases p) auto
      from loop_step_received[OF p inv]
      have inv': "all_posts st' = received_posts (exchanges st')" .
      show ?thesis
      proof (cases c)
        case Break
        with p body out inv' show ?thesis by simp
      next
        case Continue
        with p body have "f sleep_max parse srv args ws (Suc n) st' = Some out" by simp
        from IH[OF this] inv' out show ?thesis by simp
      qed
    qed
  qed
qed

lemma three_page_run:
  "fetch_loop example_sleep_max iso_table three_page_server feb_args feb_start 0 init_state =
     Some (Inr three_page_final)"
  apply (subst fetch_loop.simps, simp add: three_page_server_def example_defs step_defs)
  apply (subst fetch_loop.simps, simp add: three_page_server_def example_defs step_defs)
  apply (subst fetch_loop.simps, simp add: three_page_server_def example_defs step_defs three_page_final_def)
  done

lemma three_pages_fetched:
  assumes a1: "srv 0 (build_request args init_state) = Inr r1"
    and ok1: "status_code r1 = 200" and j1: "json r1 = Some pl1"
    and f1: "full_page parse args ws pl1" and t1: "meta_next_token (page_meta pl1) = Some c1"
    and a2: "srv 1 (request_after args c1) = Inr r2"
    and ok2: "status_code r2 = 200" and j2: "json r2 = Some pl2"
    and f2: "full_page parse args ws pl2" and t2: "meta_next_token (page_meta pl2) = Some c2"
    and new: "c2 \<noteq> c1"
    and a3: "srv 2 (request_after args c2) = Inr r3"
    and ok3: "status_code r3 = 200" and j3: "json r3 = Some pl3"
    and short: "int (length (page_posts pl3)) < max_per_request args"
  shows "fetch_loop sleep_max parse srv args ws 0 init_state =
     Some (Inr \<lparr>all_posts = page_posts pl1 @ page_posts pl2 @ page_posts pl3,
                next_token = Some c2, seen_tokens = {c2, c1}, page_idx = 3,
                exchanges = [(build_request args init_state, r1),
                             (request_after args c1, r2),
                             (request_after args c2, r3)],
                slept = []\<rparr>)"
proof -
  let ?st1 = "init_state\<lparr>exchanges := exchanges init_state @ [(build_request args init_state, r1)],
       page_idx := page_idx init_state + 1,
       all_posts := all_posts init_state @ page_posts pl1,
       seen_tokens := insert c1 (seen_tokens init_state),
       next_token := Some c1\<rparr>"
  let ?st2 = "?st1\<lparr>exchanges := exchanges ?st1 @ [(build_request args ?st1, r2)],
       page_idx := page_idx ?st1 + 1,
       all_posts := all_posts ?st1 @ page_posts pl2,
       seen_tokens := insert c2 (seen_tokens ?st1),
       next_token := Some c2\<rparr>"
  have rq1: "build_request args ?st1 = request_after args c1"
    unfolding request_after_def by (rule build_request_next_token) simp
  have rq2: "build_request args ?st2 = request_after args c2"
    unfolding request_after_def by (rule build_request_next_token) simp
  have n1: "c1 \<notin> seen_tokens init_state" by (simp add: init_state_def)
  from new have n2: "c2 \<notin> seen_tokens ?st1" by (simp add: init_state_def)
  have s1: "fetch_loop sleep_max parse srv args ws 0 init_state =
      fetch_loop sleep_max parse srv args ws (Suc 0) ?st1"
    using continue_after_full_page[of srv 0 args init_state r1 pl1 parse ws c1 sleep_max]
      a1 ok1 j1 f1 t1 n1 by blast
  have a2': "srv (Suc 0) (build_request args ?st1) = Inr r2"
    by (subst rq1) (use a2 in simp)
  have s2: "fetch_loop sleep_max parse srv args ws (Suc 0) ?st1 =
      fetch_loop sleep_max parse srv args ws (Suc (Suc 0)) ?st2"
    using continue_after_full_page[of srv "Suc 0" args ?st1 r2 pl2 parse ws c2 sleep_max]
      a2' ok2 j2 f2 t2 n2 by blast
  have a3': "srv (Suc (Suc 0)) (build_request args ?st2) = Inr r3"
    by (subst rq2) (use a3 in \<open>simp add: numeral_2_eq_2\<close>)
  from short have stop: "page_posts pl3 = [] \<or> page_result_count pl3 = 0
       \<or> int (length (page_posts pl3)) < max_per_request args
       \<or> oldest_before_start parse ws (page_posts pl3)" by simp
  have s3: "fetch_loop sleep_max parse srv args ws (Suc (Suc 0)) ?st2 =
     Some (Inr (?st2\<lparr>exchanges := exchanges ?st2 @ [(build_request args ?st2, r3)],
                   page_idx := page_idx ?st2 + 1,
                   all_posts := all_posts ?st2 @ page_posts pl3\<rparr>))"
    using stop_after_page[of srv "Suc (Suc 0)" args ?st2 r3 pl3 parse ws sleep_max]
      a3' ok3 j3 stop by blast
  have fin: "?st2\<lparr>exchanges := exchanges ?st2 @ [(build_request args ?st2, r3)],
                   page_idx := page_idx ?st2 + 1,
                   all_posts := all_posts ?st2 @ page_posts pl3\<rparr> =
     \<lparr>all_posts = page_posts pl1 @ page_posts pl2 @ page_posts pl3,
                next_token = Some c2, seen_tokens = {c2, c1}, page_idx = 3,
                exchanges = [(build_request args init_state, r1),
                             (request_after args c1, r2),
                             (request_after args c2, r3)],
                slept = []\<rparr>"
    by (simp add: build_request_after init_state_def)
  from s1 s2 s3 show ?thesis by (simp only: fin)
qed

text \<open>
  Claim C2. The items of every decoded page with status 200 are appended to the
  accumulation whatever the stopping conditions decide afterwards, so that the
  accumulation at the end of the loop, before the window filter, is the concatenation of
  the items of the pages received, in the order of the requests. When the server answers
  the first request with a full page and a cursor, the request with that cursor with a
  second full page and a new cursor, and the request with the new cursor with a short
  page, the loop makes these three requests and returns, and the accumulation is the
  concatenation of the items of the three pages in that order.
\<close>

theorem pages_appended_before_stopping:
  "(status_code r = 200 \<and> json r = Some pl \<longrightarrow>
      (\<exists>st' c. loop_step sleep_max parse args ws st rq (Inr r) = Inr (st', c)
         \<and> all_posts st' = all_posts st @ page_posts pl))
   \<and> (fetch_loop sleep_max parse srv args ws 0 init_state = Some (Inr fin) \<longrightarrow>
        all_posts fin = received_posts (exchanges fin))
   \<and> (srv' 0 (build_request args init_state) = Inr r1
        \<and> status_code r1 = 200 \<and> json r1 = Some pl1
        \<and> full_page parse args ws pl1 \<and> meta_next_token (page_meta pl1) = Some c1
        \<and> srv' 1 (request_after args c1) = Inr r2
        \<and> status_code r2 = 200 \<and> json r2 = Some pl2
        \<and> full_page parse args ws pl2 \<and> meta_next_token (page_meta pl2) = Some c2
        \<and> c2 \<noteq> c1
        \<and> srv' 2 (request_after args c2) = Inr r3
        \<and> status_code r3 = 200 \<and> json r3 = Some pl3
        \<and> int (length (page_posts pl3)) < max_per_request args \<longrightarrow>
        fetch_loop sleep_max parse srv' args ws 0 init_state =
          Some (Inr \<lparr>all_posts = page_posts pl1 @ page_posts pl2 @ page_posts pl3,
                     next_token = Some c2, seen_tokens = {c2, c1}, page_idx = 3,
                     exchanges = [(build_request args init_state, r1),
                                  (request_after args c1, r2),
                                  (request_after args c2, r3)],
                     slept = []\<rparr>))"
proof (intro conjI impI)
  assume h: "status_code r = 200 \<and> json r = Some pl"
  let ?st0 = "st\<lparr>exchanges := exchanges st @ [(rq, r)]\<rparr>"
  from h have "loop_step sleep_max parse args ws st rq (Inr r) =
      Inr (handle_page parse args ws ?st0 pl)"
    by (simp add: loop_step_page)
  moreover have "all_posts (fst (handle_page parse args ws ?st0 pl)) = all_posts st @ page_posts pl"
    using handle_page_fields(1)[of parse args ws ?st0 pl] by simp
  ultimately show "\<exists>st' c. loop_step sleep_max parse args ws st rq (Inr r) = Inr (st', c)
         \<and> all_posts st' = all_posts st @ page_posts pl"
    by (cases "handle_page parse args ws ?st0 pl") auto
next
  assume "fetch_loop sleep_max parse srv args ws 0 init_state = Some (Inr fin)"
  from fetch_loop_received[OF this] show "all_posts fin = received_posts (exchanges fin)"
    by (simp add: init_state_def received_posts_def)
next
  assume h: "srv' 0 (build_request args init_state) = Inr r1
        \<and> status_code r1 = 200 \<and> json r1 = Some pl1
        \<and> full_page parse args ws pl1 \<and> meta_next_token (page_meta pl1) = Some c1
        \<and> srv' 1 (request_after args c1) = Inr r2
        \<and> status_code r2 = 200 \<and> json r2 = Some pl2
        \<and> full_page parse args ws pl2 \<and> meta_next_token (page_meta pl2) = Some c2
        \<and> c2 \<noteq> c1
        \<and> srv' 2 (request_after args c2) = Inr r3
        \<and> status_code r3 = 200 \<and> json r3 = Some pl3
        \<and> int (length (page_posts pl3)) < max_per_request args"
  then show "fetch_loop sleep_max parse srv' args ws 0 init_state =
          Some (Inr \<lparr>all_posts = page_posts pl1 @ page_posts pl2 @ page_posts pl3,
                     next_token = Some c2, seen_tokens = {c2, c1}, page_idx = 3,
                     exchanges = [(build_request args init_state, r1),
                                  (request_after args c1, r2),
                                  (request_after args c2, r3)],
                     slept = []\<rparr>)"
    using three_pages_fetched[of srv' args r1 pl1 parse ws c1 r2 pl2 c2 r3 pl3 sleep_max]
    by blast
qed

text \<open>
  A server that returns two pages of ten items and then a page of three, for pages of
  ten: the three requests are made, the short page stops the loop and its items are kept.
\<close>

theorem pages_appended_before_stopping_witness:
  "status_code (page_response (posts_at in_feb ids_c) (Some 3) None) = 200
   \<and> json (page_response (posts_at in_feb ids_c) (Some 3) None)
       = Some (page_payload (posts_at in_feb ids_c) (Some 3) None)
   \<and> three_page_server 0 (build_request feb_args init_state)
       = Inr (page_response (posts_at in_feb ids_a) (Some 10) (Some ''tok-a''))
   \<and> full_page iso_table feb_args feb_start
        (page_payload (posts_at in_feb ids_a) (Some 10) (Some ''tok-a''))
   \<and> three_page_server 1 (request_after feb_args ''tok-a'')
       = Inr (page_response (posts_at in_feb ids_b) (Some 10) (Some ''tok-b''))
   \<and> full_page iso_table feb_args feb_start
        (page_payload (posts_at in_feb ids_b) (Some 10) (Some ''tok-b''))
   \<and> ''tok-b'' \<noteq> ''tok-a''
   \<and> three_page_server 2 (request_after feb_args ''tok-b'')
       = Inr (page_response (posts_at in_feb ids_c) (Some 3) None)
   \<and> int (length (posts_at in_feb ids_c)) < max_per_request feb_args
   \<and> fetch_loop example_sleep_max iso_table three_page_server feb_args feb_start 0 init_state
       = Some (Inr three_page_final)
   \<and> all_posts three_page_final = received_posts (exchanges three_page_final)
   \<and> all_posts three_page_final =
       posts_at in_feb ids_a @ posts_at in_feb ids_b @ posts_at in_feb ids_c
   \<and> page_idx three_page_final = 3"
proof -
  let ?ra = "page_response (posts_at in_feb ids_a) (Some 10) (Some ''tok-a'')"
  let ?rb = "page_response (posts_at in_feb ids_b) (Some 10) (Some ''tok-b'')"
  let ?rc = "page_response (posts_at in_feb ids_c) (Some 3) None"
  let ?pa = "page_payload (posts_at in_feb ids_a) (Some 10) (Some ''tok-a'')"
  let ?pb = "page_payload (posts_at in_feb ids_b) (Some 10) (Some ''tok-b'')"
  let ?pc = "page_payload (posts_at in_feb ids_c) (Some 3) None"
  note T = pages_appended_before_stopping
    [of ?rc ?pc example_sleep_max iso_table feb_args feb_start init_state "feb_request None"
        three_page_server three_page_final
        three_page_server ?ra ?pa "''tok-a''" ?rb ?pb "''tok-b''" ?rc ?pc]
  have pr: "status_code (page_response ps rc tok) = 200"
    "json (page_response ps rc tok) = Some (page_payload ps rc tok)" for ps rc tok
    by (simp_all add: page_response_def)
  have pp: "page_posts (page_payload ps rc tok) = ps"
    "meta_next_token (page_meta (page_payload ps rc tok)) = tok" for ps rc tok
    by (simp_all add: page_posts_def page_meta_def page_payload_def)
  have rq0: "build_request feb_args init_state = feb_request None"
    by (simp add: example_defs build_request_def excludes_def)
  have rqa: "request_after feb_args ''tok-a'' = feb_request (Some ''tok-a'')"
    and rqb: "request_after feb_args ''tok-b'' = feb_request (Some ''tok-b'')"
    by (simp_all add: request_after_def example_defs build_request_def excludes_def)
  have s0: "three_page_server 0 (build_request feb_args init_state) = Inr ?ra"
    and s1: "three_page_server 1 (request_after feb_args ''tok-a'') = Inr ?rb"
    and s2: "three_page_server 2 (request_after feb_args ''tok-b'') = Inr ?rc"
    by (simp_all add: three_page_server_def)
  have fa: "full_page iso_table feb_args feb_start ?pa"
    and fb: "full_page iso_table feb_args feb_start ?pb"
    by (simp_all add: full_page_def example_defs page_posts_def page_meta_def
        page_result_count_def oldest_before_start_def replace_Z_def)
  have ne: "''tok-b'' \<noteq> ''tok-a''" by simp
  have sh: "int (length (posts_at in_feb ids_c)) < max_per_request feb_args"
    by (simp add: example_defs)
  from sh have sh': "int (length (page_posts ?pc)) < max_per_request feb_args"
    by (simp only: pp)
  from T[THEN conjunct2, THEN conjunct2] s0 s1 s2 pr pp fa fb ne sh'
  have run0: "fetch_loop example_sleep_max iso_table three_page_server feb_args feb_start 0 init_state =
      Some (Inr \<lparr>all_posts = page_posts ?pa @ page_posts ?pb @ page_posts ?pc,
                 next_token = Some ''tok-b'', seen_tokens = {''tok-b'', ''tok-a''}, page_idx = 3,
                 exchanges = [(build_request feb_args init_state, ?ra),
                              (request_after feb_args ''tok-a'', ?rb),
                              (request_after feb_args ''tok-b'', ?rc)],
                 slept = []\<rparr>)"
    by blast
  then have run: "fetch_loop example_sleep_max iso_table three_page_server feb_args feb_start 0
      init_state = Some (Inr three_page_final)"
    by (simp only: pp rq0 rqa rqb three_page_final_def)
  from T[THEN conjunct2, THEN conjunct1] run
  have c2: "all_posts three_page_final = received_posts (exchanges three_page_final)"
    by blast
  have c3: "all_posts three_page_final =
       posts_at in_feb ids_a @ posts_at in_feb ids_b @ posts_at in_feb ids_c"
    and c4: "page_idx three_page_final = 3"
    by (simp_all add: three_page_final_def)
  from pr s0 s1 s2 fa fb ne sh run c2 c3 c4 show ?thesis by (simp only: simp_thms)
qed

text \<open>
  Claim C3. When the answer to the request of an iteration is a decoded page with status
  200 whose item list is empty, or whose declared \<^verbatim>\<open>result_count\<close> is zero, or that has
  strictly fewer items than \<^verbatim>\<open>max_results\<close>, the loop ends with this iteration: the
  exchange is the last one of the run, the page is counted, and its items are kept. From
  the initial state this is a fetch of exactly one page.
\<close>

theorem stops_after_empty_zero_or_short_page:
  assumes "srv n (build_request args st) = Inr r"
    and "status_code r = 200" and "json r = Some pl"
    and "page_posts pl = [] \<or> meta_result_count (page_meta pl) = Some 0
       \<or> int (length (page_posts pl)) < max_per_request args"
  shows "fetch_loop sleep_max parse srv args ws n st =
     Some (Inr (st\<lparr>exchanges := exchanges st @ [(build_request args st, r)],
                   page_idx := page_idx st + 1,
                   all_posts := all_posts st @ page_posts pl\<rparr>))"
proof -
  from assms(4) have "page_posts pl = [] \<or> page_result_count pl = 0
       \<or> int (length (page_posts pl)) < max_per_request args
       \<or> oldest_before_start parse ws (page_posts pl)"
    by (auto simp: page_result_count_def)
  with assms(1-3) show ?thesis by (rule stop_after_page)
qed

text \<open>
  A first page of three items for pages of ten, and a first page of ten items that
  declares \<^verbatim>\<open>result_count\<close> 0: each fetch ends after one request, and the items are
  kept.
\<close>

theorem stops_after_empty_zero_or_short_page_witness:
  "short_first_server 0 (build_request feb_args init_state)
      = Inr (page_response (posts_at in_feb ids_c) (Some 3) (Some ''tok-a''))
   \<and> status_code (page_response (posts_at in_feb ids_c) (Some 3) (Some ''tok-a'')) = 200
   \<and> json (page_response (posts_at in_feb ids_c) (Some 3) (Some ''tok-a''))
       = Some (page_payload (posts_at in_feb ids_c) (Some 3) (Some ''tok-a''))
   \<and> int (length (page_posts (page_payload (posts_at in_feb ids_c) (Some 3) (Some ''tok-a''))))
       < max_per_request feb_args
   \<and> fetch_loop example_sleep_max iso_table short_first_server feb_args feb_start 0 init_state =
       Some (Inr \<lparr>all_posts = posts_at in_feb ids_c, next_token = None, seen_tokens = {},
                  page_idx = 1,
                  exchanges = [(feb_request None,
                      page_response (posts_at in_feb ids_c) (Some 3) (Some ''tok-a''))],
                  slept = []\<rparr>)
   \<and> zero_count_server 0 (build_request feb_args init_state)
      = Inr (page_response (posts_at in_feb ids_a) (Some 0) (Some ''tok-a''))
   \<and> meta_result_count (page_meta (page_payload (posts_at in_feb ids_a) (Some 0) (Some ''tok-a'')))
       = Some 0
   \<and> page_posts (page_payload (posts_at in_feb ids_a) (Some 0) (Some ''tok-a'')) \<noteq> []
   \<and> fetch_loop example_sleep_max iso_table zero_count_server feb_args feb_start 0 init_state =
       Some (Inr \<lparr>all_posts = posts_at in_feb ids_a, next_token = None, seen_tokens = {},
                  page_idx = 1,
                  exchanges = [(feb_request None,
                      page_response (posts_at in_feb ids_a) (Some 0) (Some ''tok-a''))],
                  slept = []\<rparr>)"
proof -
  let ?r = "page_response (posts_at in_feb ids_c) (Some 3) (Some ''tok-a'')"
  let ?pl = "page_payload (posts_at in_feb ids_c) (Some 3) (Some ''tok-a'')"
  let ?rz = "page_response (posts_at in_feb ids_a) (Some 0) (Some ''tok-a'')"
  let ?plz = "page_payload (posts_at in_feb ids_a) (Some 0) (Some ''tok-a'')"
  have rq: "build_request feb_args init_state = feb_request None"
    by (simp add: example_defs build_request_def excludes_def)
  have a1: "short_first_server 0 (build_request feb_args init_state) = Inr ?r"
    by (simp add: short_first_server_def)
  have a2: "status_code ?r = 200" and a3: "json ?r = Some ?pl"
    by (simp_all add: page_response_def)
  have a4: "int (length (page_posts ?pl)) < max_per_request feb_args"
    by (simp add: example_defs page_posts_def)
  have b1: "zero_count_server 0 (build_request feb_args init_state) = Inr ?rz"
    by (simp add: zero_count_server_def)
  have b2: "status_code ?rz = 200" and b3: "json ?rz = Some ?plz"
    by (simp_all add: page_response_def)
  have b4: "meta_result_count (page_meta ?plz) = Some 0" and b5: "page_posts ?plz \<noteq> []"
    by (simp_all add: example_defs page_posts_def page_meta_def)
  have c1: "fetch_loop example_sleep_max iso_table short_first_server feb_args feb_start 0 init_state =
       Some (Inr \<lparr>all_posts = posts_at in_feb ids_c, next_token = None, seen_tokens = {},
                  page_idx = 1, exchanges = [(feb_request None, ?r)], slept = []\<rparr>)"
    using stops_after_empty_zero_or_short_page
      [of short_first_server 0 feb_args init_state ?r ?pl example_sleep_max iso_table feb_start, OF a1 a2 a3] a4
    by (simp add: rq) (simp add: init_state_def page_posts_def page_payload_def)
  have c2: "fetch_loop example_sleep_max iso_table zero_count_server feb_args feb_start 0 init_state =
       Some (Inr \<lparr>all_posts = posts_at in_feb ids_a, next_token = None, seen_tokens = {},
                  page_idx = 1, exchanges = [(feb_request None, ?rz)], slept = []\<rparr>)"
    using stops_after_empty_zero_or_short_page
      [of zero_count_server 0 feb_args init_state ?rz ?plz example_sleep_max iso_table feb_start, OF b1 b2 b3] b4
    by (simp add: rq) (simp add: init_state_def page_posts_def page_payload_def)
  from a1 a2 a3 a4 b1 b4 b5 c1 c2 show ?thesis by simp
qed

text \<open>
  Claim C10. A page with status 200 whose \<^verbatim>\<open>meta\<close> has no \<^verbatim>\<open>result_count\<close> has the
  result count 0: the loop ends with this iteration, whatever the items and the
  \<^verbatim>\<open>next_token\<close> of the page, and the items of the page are kept.
\<close>

theorem missing_result_count_stops:
  assumes "srv n (build_request args st) = Inr r"
    and "status_code r = 200" and "json r = Some pl"
    and "meta_result_count (page_meta pl) = None"
  shows "page_result_count pl = 0
     \<and> fetch_loop sleep_max parse srv args ws n st =
         Some (Inr (st\<lparr>exchanges := exchanges st @ [(build_request args st, r)],
                       page_idx := page_idx st + 1,
                       all_posts := all_posts st @ page_posts pl\<rparr>))"
proof -
  from assms(4) have z: "page_result_count pl = 0" by (simp add: page_result_count_def)
  then have "page_posts pl = [] \<or> page_result_count pl = 0
       \<or> int (length (page_posts pl)) < max_per_request args
       \<or> oldest_before_start parse ws (page_posts pl)" by simp
  with assms(1-3) have "fetch_loop sleep_max parse srv args ws n st =
         Some (Inr (st\<lparr>exchanges := exchanges st @ [(build_request args st, r)],
                       page_idx := page_idx st + 1,
                       all_posts := all_posts st @ page_posts pl\<rparr>))"
    by (rule stop_after_page)
  with z show ?thesis by simp
qed

text \<open>
  A full first page with a \<^verbatim>\<open>next_token\<close> and no \<^verbatim>\<open>result_count\<close>: one request, ten
  items kept.
\<close>

theorem missing_result_count_stops_witness:
  "no_count_server 0 (build_request feb_args init_state)
      = Inr (page_response (posts_at in_feb ids_a) None (Some ''tok-a''))
   \<and> status_code (page_response (posts_at in_feb ids_a) None (Some ''tok-a'')) = 200
   \<and> json (page_response (posts_at in_feb ids_a) None (Some ''tok-a''))
       = Some (page_payload (posts_at in_feb ids_a) None (Some ''tok-a''))
   \<and> meta_result_count (page_meta (page_payload (posts_at in_feb ids_a) None (Some ''tok-a''))) = None
   \<and> meta_next_token (page_meta (page_payload (posts_at in_feb ids_a) None (Some ''tok-a'')))
       = Some ''tok-a''
   \<and> int (length (page_posts (page_payload (posts_at in_feb ids_a) None (Some ''tok-a''))))
       = max_per_request feb_args
   \<and> fetch_loop example_sleep_max iso_table no_count_server feb_args feb_start 0 init_state =
       Some (Inr \<lparr>all_posts = posts_at in_feb ids_a, next_token = None, seen_tokens = {},
                  page_idx = 1,
                  exchanges = [(feb_request None,
                      page_response (posts_at in_feb ids_a) None (Some ''tok-a''))],
                  slept = []\<rparr>)"
proof -
  let ?r = "page_response (posts_at in_feb ids_a) None (Some ''tok-a'')"
  let ?pl = "page_payload (posts_at in_feb ids_a) None (Some ''tok-a'')"
  have rq: "build_request feb_args init_state = feb_request None"
    by (simp add: example_defs build_request_def excludes_def)
  have a1: "no_count_server 0 (build_request feb_args init_state) = Inr ?r"
    by (simp add: no_count_server_def)
  have a2: "status_code ?r = 200" and a3: "json ?r = Some ?pl"
    by (simp_all add: page_response_def)
  have a4: "meta_result_count (page_meta ?pl) = None"
    and a5: "meta_next_token (page_meta ?pl) = Some ''tok-a''"
    and a6: "int (length (page_posts ?pl)) = max_per_request feb_args"
    by (simp_all add: example_defs page_posts_def page_meta_def)
  have c1: "fetch_loop example_sleep_max iso_table no_count_server feb_args feb_start 0 init_state =
       Some (Inr \<lparr>all_posts = posts_at in_feb ids_a, next_token = None, seen_tokens = {},
                  page_idx = 1, exchanges = [(feb_request None, ?r)], slept = []\<rparr>)"
    using missing_result_count_stops
      [of no_count_server 0 feb_args init_state ?r ?pl example_sleep_max iso_table feb_start, OF a1 a2 a3 a4]
    by (simp add: rq) (simp add: init_state_def page_posts_def page_payload_def)
  from a1 a2 a3 a4 a5 a6 c1 show ?thesis by simp
qed

section \<open>Properties of the backoff\<close>







section \<open>Properties of the call in \<^verbatim>\<open>main\<close>\<close>

lemma loop_step_exchanges:
  assumes "loop_step sleep_max parse args ws st rq answer = Inr (st', c)"
  shows "\<exists>r. exchanges st' = exchanges st @ [(rq, r)]"
proof -
  from assms obtain r where ans: "answer = Inr r"
    by (cases answer) (simp_all add: loop_step_def)
  let ?st0 = "st\<lparr>exchanges := exchanges st @ [(rq, r)]\<rparr>"
  have "exchanges st' = exchanges st @ [(rq, r)]"
  proof (cases "status_code r = 200")
    case True
    with assms ans obtain pl where "handle_page parse args ws ?st0 pl = (st', c)"
      by (cases "json r") (simp_all add: loop_step_def Let_def)
    with handle_page_fields(3)[of parse args ws ?st0 pl] show ?thesis by simp
  next
    case False
    show ?thesis
    proof (cases "status_code r = 429 \<or> status_code r = 503")
      case True
      with assms ans loop_step_throttle_Inr[of answer r sleep_max parse args ws st rq st' c]
      show ?thesis by auto
    next
      case other: False
      with assms ans False loop_step_other[of answer r sleep_max parse args ws st rq] show ?thesis by auto
    qed
  qed
  then show ?thesis by blast
qed

lemma fetch_loop_max_results:
  assumes run: "fetch_loop sleep_max parse srv args ws n st = Some out"
  shows "requests_use (max_per_request args) (exchanges st) \<longrightarrow>
     (\<forall>fin. out = Inr fin \<longrightarrow> requests_use (max_per_request args) (exchanges fin))"
proof (rule fetch_loop.raw_induct
    [where P = "\<lambda>sleep_max parse srv args ws n st out.
       requests_use (max_per_request args) (exchanges st) \<longrightarrow>
       (\<forall>fin. out = Inr fin \<longrightarrow> requests_use (max_per_request args) (exchanges fin))",
     OF _ run])
  fix f :: "int \<Rightarrow> fromisoformat \<Rightarrow> server \<Rightarrow> fetch_args \<Rightarrow> dtval \<Rightarrow> nat \<Rightarrow> fetch_state
     \<Rightarrow> (error + fetch_state) option"
  fix sleep_max parse srv args ws n st out
  assume IH: "\<And>sleep_max parse srv args ws n st out. f sleep_max parse srv args ws n st = Some out \<Longrightarrow>
     requests_use (max_per_request args) (exchanges st) \<longrightarrow>
     (\<forall>fin. out = Inr fin \<longrightarrow> requests_use (max_per_request args) (exchanges fin))"
  assume body: "(case loop_step sleep_max parse args ws st (build_request args st)
            (srv n (build_request args st)) of
      Inl e \<Rightarrow> Some (Inl e)
      | Inr (st', Continue) \<Rightarrow> f sleep_max parse srv args ws (Suc n) st'
      | Inr (st', Break) \<Rightarrow> Some (Inr st')) = Some out"
  show "requests_use (max_per_request args) (exchanges st) \<longrightarrow>
     (\<forall>fin. out = Inr fin \<longrightarrow> requests_use (max_per_request args) (exchanges fin))"
  proof (intro impI allI)
    fix fin assume inv: "requests_use (max_per_request args) (exchanges st)" and out: "out = Inr fin"
    let ?step = "loop_step sleep_max parse args ws st (build_request args st) (srv n (build_request args st))"
    show "requests_use (max_per_request args) (exchanges fin)"
    proof (cases ?step)
      case (Inl e)
      with body out show ?thesis by simp
    next
      case (Inr p)
      then obtain st' c where p: "?step = Inr (st', c)" by (cases p) auto
      from loop_step_exchanges[OF p] obtain r where
        "exchanges st' = exchanges st @ [(build_request args st, r)]" by blast
      with inv have inv': "requests_use (max_per_request args) (exchanges st')"
        by (simp add: requests_use_def build_request_def)
      show ?thesis
      proof (cases c)
        case Break
        with p body out inv' show ?thesis by simp
      next
        case Continue
        with p body have "f sleep_max parse srv args ws (Suc n) st' = Some out" by simp
        from IH[OF this] inv' out show ?thesis by simp
      qed
    qed
  qed
qed

text \<open>
  Claim C9, as amended. For every per-page size given on the command line, the
  \<^verbatim>\<open>max_results\<close> of every timeline request of the fetch that \<^verbatim>\<open>main\<close> starts is that
  size clamped into the range 10 to 100: a size below 10 is raised to 10, a size above
  100 is lowered to 100.
\<close>

theorem main_page_size_clamped:
  "main_max_per_request per_page = clamp 10 100 per_page
   \<and> max_results (build_request (main_fetch_args s e rp rt per_page) st) = clamp 10 100 per_page
   \<and> (fetch_loop sleep_max parse srv (main_fetch_args s e rp rt per_page) ws 0 init_state = Some (Inr fin) \<longrightarrow>
        requests_use (clamp 10 100 per_page) (exchanges fin))"
proof (intro conjI impI)
  show c: "main_max_per_request per_page = clamp 10 100 per_page"
    by (simp add: main_max_per_request_def clamp_def)
  then show "max_results (build_request (main_fetch_args s e rp rt per_page) st) = clamp 10 100 per_page"
    by (simp add: build_request_def main_fetch_args_def)
  assume "fetch_loop sleep_max parse srv (main_fetch_args s e rp rt per_page) ws 0 init_state = Some (Inr fin)"
  from fetch_loop_max_results[OF this] c
  show "requests_use (clamp 10 100 per_page) (exchanges fin)"
    by (simp add: requests_use_def init_state_def main_fetch_args_def)
qed

text \<open>
  With \<^verbatim>\<open>--per-page 5\<close> the three requests of the three-page run ask for 10 items.
\<close>

theorem main_page_size_clamped_witness:
  "fetch_loop example_sleep_max iso_table three_page_server
      (main_fetch_args ''2024-02-01T00:00:00Z'' ''2024-03-01T00:00:00Z'' True True 5)
      feb_start 0 init_state = Some (Inr three_page_final)
   \<and> clamp 10 100 5 = 10 \<and> clamp 10 100 250 = 100 \<and> clamp 10 100 42 = 42
   \<and> main_max_per_request 5 = 10 \<and> main_max_per_request 250 = 100 \<and> main_max_per_request 42 = 42
   \<and> requests_use 10 (exchanges three_page_final)
   \<and> map (\<lambda>x. max_results (fst x)) (exchanges three_page_final) = [10, 10, 10]"
proof -
  have same: "main_fetch_args ''2024-02-01T00:00:00Z'' ''2024-03-01T00:00:00Z'' True True 5 = feb_args"
    by (simp add: feb_args_def main_fetch_args_def main_max_per_request_def)
  have run: "fetch_loop example_sleep_max iso_table three_page_server
      (main_fetch_args ''2024-02-01T00:00:00Z'' ''2024-03-01T00:00:00Z'' True True 5)
      feb_start 0 init_state = Some (Inr three_page_final)"
    by (simp only: same three_page_run)
  have cl: "clamp 10 100 5 = 10 \<and> clamp 10 100 250 = 100 \<and> clamp 10 100 42 = 42"
    by (simp add: clamp_def)
  have mx: "main_max_per_request 5 = 10 \<and> main_max_per_request 250 = 100 \<and> main_max_per_request 42 = 42"
    using main_page_size_clamped[of 5] main_page_size_clamped[of 250] main_page_size_clamped[of 42] cl
    by simp
  have use: "requests_use 10 (exchanges three_page_final)"
    using main_page_size_clamped[of 5 "''2024-02-01T00:00:00Z''" "''2024-03-01T00:00:00Z''" True True
        init_state example_sleep_max iso_table three_page_server feb_start three_page_final] run cl
    by simp
  have lst: "map (\<lambda>x. max_results (fst x)) (exchanges three_page_final) = [10, 10, 10]"
    by (simp add: three_page_final_def feb_request_def)
  from run cl mx use lst show ?thesis by simp
qed

text \<open>
  The claim as it is written has the range 1 to 100, in which 5 stays 5; the request
  asks for 10.
\<close>

theorem main_page_size_below_ten:
  "max_results (build_request
      (main_fetch_args ''2024-02-01T00:00:00Z'' ''2024-03-01T00:00:00Z'' True True 5) init_state) = 10
   \<and> clamp 1 100 5 = 5"
  by (simp add: build_request_def main_fetch_args_def main_max_per_request_def clamp_def)

section \<open>Properties of the timestamps of a page\<close>

lemma parseable_instants_Cons:
  "parseable_instants parse (p # ps) =
     (case parsed_created parse p of Some (Aware t) \<Rightarrow> [t] | _ \<Rightarrow> []) @ parseable_instants parse ps"
  by (simp add: parseable_instants_def)

lemma min_created_aware_step:
  assumes "\<forall>p\<in>set posts. aware_or_blank parse p"
  shows "min_created parse posts None = Inr (map_option Aware (min_parseable parse posts))
     \<and> min_created parse posts (Some (Aware c)) =
         Inr (Some (Aware (fold min (parseable_instants parse posts) c)))"
  using assms
proof (induction posts arbitrary: c)
  case Nil
  show ?case by (simp add: min_parseable_def parseable_instants_def)
next
  case (Cons p ps)
  then have aw: "aware_or_blank parse p" and rest: "\<forall>q\<in>set ps. aware_or_blank parse q"
    by simp_all
  from Cons.IH[OF rest]
  have ihN: "min_created parse ps None = Inr (map_option Aware (min_parseable parse ps))"
    and ihS: "\<And>c. min_created parse ps (Some (Aware c)) =
         Inr (Some (Aware (fold min (parseable_instants parse ps) c)))"
    by simp_all
  show ?case
  proof (cases "parsed_created parse p")
    case None
    with aw have skip: "created_at p = None \<or> created_at p = Some []"
      by (auto simp: aware_or_blank_def parsed_created_def split: option.splits dtval.splits if_splits)
    then have same: "min_created parse (p # ps) cur = min_created parse ps cur" for cur
      by auto
    from None have pi: "parseable_instants parse (p # ps) = parseable_instants parse ps"
      by (simp add: parseable_instants_Cons)
    from same ihN ihS pi show ?thesis by (simp add: min_parseable_def)
  next
    case (Some d)
    with aw obtain ts t where ts: "created_at p = Some ts" "ts \<noteq> []"
      "parse (replace_Z ts) = Some (Aware t)" and d: "d = Aware t"
      by (auto simp: aware_or_blank_def parsed_created_def split: option.splits dtval.splits if_splits)
    from Some d have pi: "parseable_instants parse (p # ps) = t # parseable_instants parse ps"
      by (simp add: parseable_instants_Cons)
    from ts have n: "min_created parse (p # ps) None = min_created parse ps (Some (Aware t))"
      by simp
    from ts have s: "min_created parse (p # ps) (Some (Aware c)) =
        min_created parse ps (Some (Aware (min t c)))"
      by (simp add: min_def)
    from n s ihS pi show ?thesis by (simp add: min_parseable_def)
  qed
qed

lemma min_created_fails:
  assumes "\<exists>p\<in>set posts. fails_to_parse parse p"
  shows "\<exists>e. min_created parse posts cur = Inl e"
  using assms
proof (induction posts arbitrary: cur)
  case Nil
  then show ?case by simp
next
  case (Cons p ps)
  show ?case
  proof (cases "fails_to_parse parse p")
    case True
    then show ?thesis
      by (auto simp: fails_to_parse_def split: option.splits)
  next
    case False
    with Cons.prems have "\<exists>q\<in>set ps. fails_to_parse parse q" by simp
    from Cons.IH[OF this] have ih: "\<exists>e. min_created parse ps c = Inl e" for c by blast
    show ?thesis
    proof (cases "created_at p")
      case None
      with ih show ?thesis by simp
    next
      case (Some ts)
      show ?thesis
      proof (cases "ts = []")
        case True
        with Some ih show ?thesis by simp
      next
        case nonempty: False
        with False Some obtain d where d: "parse (replace_Z ts) = Some d"
          by (auto simp: fails_to_parse_def)
        show ?thesis
        proof (cases cur)
          case None
          with Some nonempty d ih show ?thesis by simp
        next
          case (Some c)
          with \<open>created_at p = Some ts\<close> nonempty d ih show ?thesis
            by (cases "dt_lt d c") simp_all
        qed
      qed
    qed
  qed
qed

lemma oldest_skipped_on_failure:
  assumes "\<exists>p\<in>set posts. fails_to_parse parse p"
  shows "\<not> oldest_before_start parse ws posts"
proof -
  from min_created_fails[OF assms, of None] obtain e where "min_created parse posts None = Inl e"
    by blast
  then show ?thesis by (simp add: oldest_before_start_def)
qed

lemma oldest_before_start_aware:
  assumes "\<forall>p\<in>set posts. aware_or_blank parse p"
  shows "oldest_before_start parse (Aware s) posts =
     (case min_parseable parse posts of None \<Rightarrow> False | Some t \<Rightarrow> t < s)"
proof -
  from min_created_aware_step[OF assms]
  have "min_created parse posts None = Inr (map_option Aware (min_parseable parse posts))"
    by simp
  then show ?thesis
    by (cases "min_parseable parse posts") (simp_all add: oldest_before_start_def)
qed

lemma handle_page_without_oldest:
  assumes "\<not> oldest_before_start parse ws (page_posts pl)"
  shows "snd (handle_page parse args ws st pl) =
     (if stops_without_oldest args st pl then Break else Continue)"
  using assms
  by (simp add: handle_page_def stops_without_oldest_def Let_def split: option.splits)

text \<open>
  Claim C4, as amended. When every \<^verbatim>\<open>created_at\<close> of the page that is present and not
  empty parses to an instant with an offset, and the earliest of these instants is
  earlier than the start of the window, the loop ends with this iteration and the page
  is kept. When parsing fails for any item of the page, and so also when it fails for
  all of them, the condition is skipped without an exception, and the decision is that
  of the other conditions.
\<close>

theorem stops_when_page_is_past_window_start:
  "(srv n (build_request args st) = Inr r \<and> status_code r = 200 \<and> json r = Some pl
      \<and> (\<forall>p\<in>set (page_posts pl). aware_or_blank parse p)
      \<and> min_parseable parse (page_posts pl) = Some t \<and> t < s \<longrightarrow>
      fetch_loop sleep_max parse srv args (Aware s) n st =
        Some (Inr (st\<lparr>exchanges := exchanges st @ [(build_request args st, r)],
                      page_idx := page_idx st + 1,
                      all_posts := all_posts st @ page_posts pl\<rparr>)))
   \<and> ((\<exists>p\<in>set (page_posts pl'). fails_to_parse parse p) \<longrightarrow>
        \<not> oldest_before_start parse ws' (page_posts pl')
        \<and> snd (handle_page parse args ws' st' pl') =
            (if stops_without_oldest args st' pl' then Break else Continue))"
proof (intro conjI impI)
  assume h: "srv n (build_request args st) = Inr r \<and> status_code r = 200 \<and> json r = Some pl
      \<and> (\<forall>p\<in>set (page_posts pl). aware_or_blank parse p)
      \<and> min_parseable parse (page_posts pl) = Some t \<and> t < s"
  then have "oldest_before_start parse (Aware s) (page_posts pl)"
    using oldest_before_start_aware[of "page_posts pl" parse s] by simp
  then have "page_posts pl = [] \<or> page_result_count pl = 0
       \<or> int (length (page_posts pl)) < max_per_request args
       \<or> oldest_before_start parse (Aware s) (page_posts pl)" by simp
  with h show "fetch_loop sleep_max parse srv args (Aware s) n st =
        Some (Inr (st\<lparr>exchanges := exchanges st @ [(build_request args st, r)],
                      page_idx := page_idx st + 1,
                      all_posts := all_posts st @ page_posts pl\<rparr>))"
    using stop_after_page[of srv n args st r pl parse "Aware s" sleep_max] by blast
next
  assume f: "\<exists>p\<in>set (page_posts pl'). fails_to_parse parse p"
  then show no: "\<not> oldest_before_start parse ws' (page_posts pl')"
    by (rule oldest_skipped_on_failure)
  then show "snd (handle_page parse args ws' st' pl') =
            (if stops_without_oldest args st' pl' then Break else Continue)"
    by (rule handle_page_without_oldest)
qed

lemmas parse_defs = parsed_created_def aware_or_blank_def fails_to_parse_def min_parseable_def
  parseable_instants_def replace_Z_def

text \<open>
  A full first page of January 15 for the window of February 2024 ends the fetch after
  one request although it has a cursor; a full page whose first item does not parse does
  not end it.
\<close>

theorem stops_when_page_is_past_window_start_witness:
  "old_page_server 0 (build_request feb_args init_state)
      = Inr (page_response (posts_at before_feb ids_a) (Some 10) (Some ''tok-a''))
   \<and> status_code (page_response (posts_at before_feb ids_a) (Some 10) (Some ''tok-a'')) = 200
   \<and> json (page_response (posts_at before_feb ids_a) (Some 10) (Some ''tok-a''))
       = Some (page_payload (posts_at before_feb ids_a) (Some 10) (Some ''tok-a''))
   \<and> list_all (aware_or_blank iso_table) (posts_at before_feb ids_a)
   \<and> min_parseable iso_table (posts_at before_feb ids_a) = Some 1705276800
   \<and> (1705276800::int) < 1706745600
   \<and> fetch_loop example_sleep_max iso_table old_page_server feb_args (Aware 1706745600) 0 init_state =
       Some (Inr \<lparr>all_posts = posts_at before_feb ids_a, next_token = None, seen_tokens = {},
                  page_idx = 1,
                  exchanges = [(feb_request None,
                      page_response (posts_at before_feb ids_a) (Some 10) (Some ''tok-a''))],
                  slept = []\<rparr>)
   \<and> fails_to_parse iso_table (mk_post ''not-a-date'' ''a0'')
   \<and> mk_post ''not-a-date'' ''a0'' \<in> set mixed_page
   \<and> \<not> oldest_before_start iso_table feb_start mixed_page
   \<and> \<not> stops_without_oldest feb_args init_state
          (page_payload mixed_page (Some 10) (Some ''tok-a''))
   \<and> snd (handle_page iso_table feb_args feb_start init_state
            (page_payload mixed_page (Some 10) (Some ''tok-a''))) = Continue"
proof -
  let ?r = "page_response (posts_at before_feb ids_a) (Some 10) (Some ''tok-a'')"
  let ?pl = "page_payload (posts_at before_feb ids_a) (Some 10) (Some ''tok-a'')"
  let ?plm = "page_payload mixed_page (Some 10) (Some ''tok-a'')"
  note T = stops_when_page_is_past_window_start
    [of old_page_server 0 feb_args init_state ?r ?pl iso_table 1705276800 1706745600
        example_sleep_max ?plm feb_start init_state]
  have rq: "build_request feb_args init_state = feb_request None"
    by (simp add: example_defs build_request_def excludes_def)
  have pp: "page_posts (page_payload ps rc tok) = ps" for ps rc tok
    by (simp add: page_posts_def page_payload_def)
  have a1: "old_page_server 0 (build_request feb_args init_state) = Inr ?r"
    by (simp add: old_page_server_def)
  have a2: "status_code ?r = 200" and a3: "json ?r = Some ?pl"
    by (simp_all add: page_response_def)
  have a4: "list_all (aware_or_blank iso_table) (posts_at before_feb ids_a)"
    by (simp add: example_defs parse_defs)
  have a5: "min_parseable iso_table (posts_at before_feb ids_a) = Some 1705276800"
    by (simp add: example_defs parse_defs)
  have b1: "fails_to_parse iso_table (mk_post ''not-a-date'' ''a0'')"
    by (simp add: example_defs parse_defs)
  have b2: "mk_post ''not-a-date'' ''a0'' \<in> set mixed_page"
    by (simp add: mixed_page_def)
  have b3: "\<not> stops_without_oldest feb_args init_state ?plm"
    by (simp add: stops_without_oldest_def mixed_page_def ids_rest_def example_defs page_posts_def
        page_meta_def page_result_count_def)
  from a4 have a4': "\<forall>p\<in>set (page_posts ?pl). aware_or_blank iso_table p"
    by (simp add: pp list_all_iff)
  have ini: "exchanges init_state = []" "page_idx init_state = 0" "all_posts init_state = []"
    by (simp_all add: init_state_def)
  from T a1 a2 a3 a4' a5 have c1: "fetch_loop example_sleep_max iso_table old_page_server feb_args (Aware 1706745600) 0 init_state =
       Some (Inr (init_state\<lparr>exchanges := [(feb_request None, ?r)],
                      page_idx := 1,
                      all_posts := posts_at before_feb ids_a\<rparr>))"
    by (simp add: pp rq ini)
  then have c1': "fetch_loop example_sleep_max iso_table old_page_server feb_args (Aware 1706745600) 0 init_state =
       Some (Inr \<lparr>all_posts = posts_at before_feb ids_a, next_token = None, seen_tokens = {},
                  page_idx = 1, exchanges = [(feb_request None, ?r)], slept = []\<rparr>)"
    by (simp add: init_state_def)
  from b1 b2 have ex: "\<exists>p\<in>set (page_posts ?plm). fails_to_parse iso_table p"
    by (auto simp: pp)
  from T ex have c2: "\<not> oldest_before_start iso_table feb_start (page_posts ?plm)"
    and c3: "snd (handle_page iso_table feb_args feb_start init_state ?plm) =
        (if stops_without_oldest feb_args init_state ?plm then Break else Continue)"
    by blast+
  from a1 a2 a3 a4 a5 c1' b1 b2 b3 c2 c3 show ?thesis by (simp add: pp)
qed

text \<open>
  The claim as it is written takes the minimum over the items that parse. On a full page
  whose first \<^verbatim>\<open>created_at\<close> is \<^verbatim>\<open>not-a-date\<close> and whose nine others are of January 15,
  that minimum is earlier than the start of the window, and the fetch goes on to a second
  request: the exception of the first item ends the computation of the minimum.
\<close>

theorem unparseable_item_hides_older_items:
  "min_parseable iso_table mixed_page = Some 1705276800
   \<and> feb_start = Aware 1706745600
   \<and> (1705276800::int) < 1706745600
   \<and> fetch_loop example_sleep_max iso_table mixed_page_server feb_args feb_start 0 init_state =
       Some (Inr mixed_page_final)
   \<and> page_idx mixed_page_final = 2"
proof -
  have "min_parseable iso_table mixed_page = Some 1705276800"
    by (simp add: mixed_page_def ids_rest_def example_defs parse_defs)
  moreover have "fetch_loop example_sleep_max iso_table mixed_page_server feb_args feb_start 0 init_state =
       Some (Inr mixed_page_final)"
    apply (subst fetch_loop.simps,
        simp add: mixed_page_server_def mixed_page_def ids_rest_def example_defs step_defs)
    apply (subst fetch_loop.simps,
        simp add: mixed_page_server_def mixed_page_def ids_rest_def example_defs step_defs
          mixed_page_final_def)
    done
  ultimately show ?thesis by (simp add: feb_start_def mixed_page_final_def)
qed

section \<open>Properties of the return value\<close>





lemma feb_window:
  "iso_table (replace_Z (start_time_iso feb_args)) = Some feb_start"
  "iso_table (replace_Z (end_time_iso feb_args)) = Some feb_end"
  by (simp_all add: example_defs replace_Z_def)




text \<open>
  Claim C7, at an input where the code departs from it. A post whose \<^verbatim>\<open>created_at\<close> is
  \<^verbatim>\<open>not-a-date\<close> has no parseable timestamp, and the claim keeps it. \<^verbatim>\<open>in_window\<close> guards
  only the missing and the empty \<^verbatim>\<open>created_at\<close>: here the parser raises inside the
  filter, and the fetch raises instead of returning the posts of its one page.
\<close>

theorem unparseable_created_at_raises:
  "in_window iso_table feb_start feb_end (mk_post ''not-a-date'' ''a0'') = Inl ValueError
   \<and> filter_in_window iso_table feb_start feb_end
        [mk_post in_feb ''a1'', mk_post ''not-a-date'' ''a0''] = Inl ValueError
   \<and> fetch_user_posts_for_month example_sleep_max iso_table unparseable_server feb_args = Some (Inl ValueError)"
proof -
  have a: "in_window iso_table feb_start feb_end (mk_post ''not-a-date'' ''a0'') = Inl ValueError"
    by (simp add: example_defs in_window_def replace_Z_def)
  have b: "filter_in_window iso_table feb_start feb_end
        [mk_post in_feb ''a1'', mk_post ''not-a-date'' ''a0''] = Inl ValueError"
    by (simp add: example_defs in_window_def replace_Z_def)
  have run: "fetch_loop example_sleep_max iso_table unparseable_server feb_args feb_start 0 init_state =
      Some (Inr \<lparr>all_posts = [mk_post in_feb ''a1'', mk_post ''not-a-date'' ''a0''],
                 next_token = None, seen_tokens = {}, page_idx = 1,
                 exchanges = [(feb_request None,
                   page_response [mk_post in_feb ''a1'', mk_post ''not-a-date'' ''a0''] (Some 2) None)],
                 slept = []\<rparr>)"
    by (subst fetch_loop.simps, simp add: unparseable_server_def example_defs step_defs)
  have "fetch_user_posts_for_month example_sleep_max iso_table unparseable_server feb_args = Some (Inl ValueError)"
    by (simp add: fetch_user_posts_for_month_def feb_window run return_filtered_def b
        del: filter_in_window.simps)
  with a b show ?thesis by (simp del: filter_in_window.simps)
qed

end
